theory Spec2Isabelle
  imports Complex_Main "HOL-Library.Multiset"
begin

section \<open>Data model\<close>

text \<open>
  The subscription dashboard is written in TypeScript. Its numbers are IEEE doubles; the
  model uses exact reals, so the rounding of binary floating point is not part of it.
  Strings are byte strings: case folding and white space cover ASCII.
  A JavaScript \<^verbatim>\<open>Date\<close> holds a time value or is invalid (\<^verbatim>\<open>NaN\<close>). The model
  keeps the local calendar fields of a valid date (month 0 to 11 as \<^verbatim>\<open>getMonth\<close>
  gives it, day of month, milliseconds since local midnight) and writes an invalid date as
  \<open>None\<close>. Local time is taken without daylight-saving shifts and the range limit of
  the time value (about 275000 years either side of 1970) is left out.
\<close>

record civil =
  year :: int
  month :: int
  day :: int
  msec :: int

type_synonym jsdate = "civil option"

text \<open>
  Modelled from the spec: the type \<^verbatim>\<open>Subscription\<close>, which the dashboard and the
  registry import from \<^verbatim>\<open>../types\<close>, a file that is not among the sources. The
  fields are those the components read: \<open>id\<close> (here \<open>sub_id\<close>), \<open>name\<close>,
  \<open>cost\<close>, \<open>billingCycle\<close>, \<open>renewalDate\<close> and \<open>category\<close>. The billing cycle
  and the category are strings, as the code compares them. \<open>renewalDate\<close> stands for
  \<^verbatim>\<open>new Date(sub.renewalDate)\<close>, the only way the code reads the field.
\<close>

record subscription =
  sub_id :: string
  name :: string
  cost :: real
  billingCycle :: string
  renewalDate :: jsdate
  category :: string

section \<open>The Date object\<close>

text \<open>The day arithmetic of ECMAScript: \<^verbatim>\<open>DaysInYear\<close>, \<^verbatim>\<open>DayFromYear\<close>, \<^verbatim>\<open>MakeDay\<close>.\<close>

definition isLeap :: "int \<Rightarrow> bool" where
  "isLeap y = (y mod 4 = 0 \<and> (y mod 100 \<noteq> 0 \<or> y mod 400 = 0))"

definition DaysInYear :: "int \<Rightarrow> int" where
  "DaysInYear y = (if isLeap y then 366 else 365)"

definition DayFromYear :: "int \<Rightarrow> int" where
  "DayFromYear y =
     365 * (y - 1970) + (y - 1969) div 4 - (y - 1901) div 100 + (y - 1601) div 400"

definition daysInMonth :: "int \<Rightarrow> int \<Rightarrow> int" where
  "daysInMonth y m =
     (if m = 1 then (if isLeap y then 29 else 28)
      else if m = 3 \<or> m = 5 \<or> m = 8 \<or> m = 10 then 30 else 31)"

definition daysBeforeMonth :: "int \<Rightarrow> int \<Rightarrow> int" where
  "daysBeforeMonth y m = (\<Sum>k\<leftarrow>[0..m - 1]. daysInMonth y k)"

definition MakeDay :: "int \<Rightarrow> int \<Rightarrow> int \<Rightarrow> int" where
  "MakeDay y m d =
     (let ym = y + m div 12; mn = m mod 12
      in DayFromYear ym + daysBeforeMonth ym mn + d - 1)"

definition msPerDay :: int where
  "msPerDay = 86400000"

text \<open>\<^verbatim>\<open>getTime()\<close>: the time value of the calendar fields.\<close>

definition getTime :: "civil \<Rightarrow> int" where
  "getTime c = MakeDay (year c) (month c) (day c) * msPerDay + msec c"

text \<open>
  The calendar fields of a date: a month from 0 to 11, a day of that month, a time of day.
\<close>

definition wellFormed :: "civil \<Rightarrow> bool" where
  "wellFormed c =
     (0 \<le> month c \<and> month c \<le> 11 \<and> 1 \<le> day c \<and> day c \<le> daysInMonth (year c) (month c)
      \<and> 0 \<le> msec c \<and> msec c < msPerDay)"

text \<open>
  A day of month beyond the month's length runs over into the following months, as the
  fields read back from the time value of \<^verbatim>\<open>MakeDay\<close> do (31 March set to February
  reads 3 March, or 2 March in a leap year).
\<close>

function carryDays :: "int \<Rightarrow> int \<Rightarrow> int \<Rightarrow> int \<times> int \<times> int" where
  "carryDays y m d =
     (if daysInMonth y m < d
      then (if m = 11 then carryDays (y + 1) 0 (d - daysInMonth y m)
            else carryDays y (m + 1) (d - daysInMonth y m))
      else (y, m, d))"
  by pat_completeness auto
termination
  by (relation "measure (\<lambda>(y, m, d). nat d)") (auto simp: daysInMonth_def split: if_splits)

declare carryDays.simps [simp del]

definition fromFields :: "int \<Rightarrow> int \<Rightarrow> int \<Rightarrow> int \<Rightarrow> civil" where
  "fromFields y m d t =
     (case carryDays (y + m div 12) (m mod 12) d of
        (y', m', d') \<Rightarrow> \<lparr>year = y', month = m', day = d', msec = t\<rparr>)"

text \<open>
  \<^verbatim>\<open>new Date(year, month, day)\<close>: local midnight; a year from 0 to 99 means 1900 + year.
\<close>

definition newDate :: "int \<Rightarrow> int \<Rightarrow> int \<Rightarrow> jsdate" where
  "newDate y m d = Some (fromFields (if 0 \<le> y \<and> y \<le> 99 then 1900 + y else y) m d 0)"

definition setMonth :: "civil \<Rightarrow> int \<Rightarrow> civil" where
  "setMonth c m = fromFields (year c) m (day c) (msec c)"

definition setFullYear :: "civil \<Rightarrow> int \<Rightarrow> civil" where
  "setFullYear c y = fromFields y (month c) (day c) (msec c)"

text \<open>
  \<^verbatim>\<open>d.setMonth(d.getMonth() - 1)\<close> and \<^verbatim>\<open>d.setFullYear(d.getFullYear() - 1)\<close>; an invalid
  date stays invalid.
\<close>

definition backOneMonth :: "jsdate \<Rightarrow> jsdate" where
  "backOneMonth d = map_option (\<lambda>c. setMonth c (month c - 1)) d"

definition backOneYear :: "jsdate \<Rightarrow> jsdate" where
  "backOneYear d = map_option (\<lambda>c. setFullYear c (year c - 1)) d"

text \<open>
  Relational operators on dates compare the time values; with an invalid date on either
  side every comparison is false.
\<close>

definition date_gt :: "jsdate \<Rightarrow> jsdate \<Rightarrow> bool" where
  "date_gt a b = (case (a, b) of (Some x, Some y) \<Rightarrow> getTime y < getTime x | _ \<Rightarrow> False)"

definition date_le :: "jsdate \<Rightarrow> jsdate \<Rightarrow> bool" where
  "date_le a b = (case (a, b) of (Some x, Some y) \<Rightarrow> getTime x \<le> getTime y | _ \<Rightarrow> False)"

definition date_ge :: "jsdate \<Rightarrow> jsdate \<Rightarrow> bool" where
  "date_ge a b = (case (a, b) of (Some x, Some y) \<Rightarrow> getTime y \<le> getTime x | _ \<Rightarrow> False)"

text \<open>
  \<^verbatim>\<open>new Date(a).getTime() - new Date(b).getTime()\<close> as a sort comparator: the difference
  is \<^verbatim>\<open>NaN\<close> when a date is invalid, and \<^verbatim>\<open>Array.prototype.sort\<close> reads \<^verbatim>\<open>NaN\<close> as 0.
\<close>

definition timeDifference :: "jsdate \<Rightarrow> jsdate \<Rightarrow> real" where
  "timeDifference a b =
     (case (a, b) of (Some x, Some y) \<Rightarrow> of_int (getTime x - getTime y) | _ \<Rightarrow> 0)"

section \<open>Strings, numbers, arrays\<close>

definition digitChar :: "nat \<Rightarrow> char" where
  "digitChar d = char_of (48 + d)"

function showNat :: "nat \<Rightarrow> string" where
  "showNat n = (if n < 10 then [digitChar n] else showNat (n div 10) @ [digitChar (n mod 10)])"
  by pat_completeness auto
termination
  by (relation "measure id") auto

declare showNat.simps [simp del]

definition monthShort :: "int \<Rightarrow> string" where
  "monthShort m =
     (if 0 \<le> m \<and> m < 12
      then [''Jan'', ''Feb'', ''Mar'', ''Apr'', ''May'', ''Jun'',
            ''Jul'', ''Aug'', ''Sep'', ''Oct'', ''Nov'', ''Dec''] ! nat m
      else ''Invalid Date'')"

text \<open>\<^verbatim>\<open>toLocaleDateString("en-US", {month: "short"})\<close>\<close>

definition formatMonth :: "jsdate \<Rightarrow> string" where
  "formatMonth d = (case d of None \<Rightarrow> ''Invalid Date'' | Some c \<Rightarrow> monthShort (month c))"

text \<open>\<^verbatim>\<open>toLocaleDateString("en-US", {month: "short", day: "numeric"})\<close>\<close>

definition formatMonthDay :: "jsdate \<Rightarrow> string" where
  "formatMonthDay d =
     (case d of None \<Rightarrow> ''Invalid Date''
      | Some c \<Rightarrow> monthShort (month c) @ '' '' @ showNat (nat (day c)))"

text \<open>
  \<^verbatim>\<open>Number(x.toFixed(2))\<close>: the nearest multiple of 1/100, the larger one at a tie of the
  magnitude; from \<open>10\<^sup>2\<^sup>1\<close> on \<^verbatim>\<open>toFixed\<close> prints the number itself.
\<close>

definition toFixed2 :: "real \<Rightarrow> real" where
  "toFixed2 x =
     (if 10 ^ 21 \<le> \<bar>x\<bar> then x
      else if x < 0 then - (of_int \<lfloor>- x * 100 + 1 / 2\<rfloor> / 100)
      else of_int \<lfloor>x * 100 + 1 / 2\<rfloor> / 100)"

text \<open>\<^verbatim>\<open>Math.round\<close>: the nearest integer, the larger one at a tie.\<close>

definition Math_round :: "real \<Rightarrow> int" where
  "Math_round x = \<lfloor>x + 1 / 2\<rfloor>"

text \<open>
  \<^verbatim>\<open>Array.prototype.sort(cmp)\<close> is a stable sort; for a consistent comparator its result
  is the one of insertion from the right.
\<close>

fun insertSorted :: "('a \<Rightarrow> 'a \<Rightarrow> real) \<Rightarrow> 'a \<Rightarrow> 'a list \<Rightarrow> 'a list" where
  "insertSorted cmp x [] = [x]"
| "insertSorted cmp x (y # ys) =
     (if cmp x y \<le> 0 then x # y # ys else y # insertSorted cmp x ys)"

definition js_sort :: "('a \<Rightarrow> 'a \<Rightarrow> real) \<Rightarrow> 'a list \<Rightarrow> 'a list" where
  "js_sort cmp xs = foldr (insertSorted cmp) xs []"

definition isDigit :: "char \<Rightarrow> bool" where
  "isDigit c = (48 \<le> (of_char c :: nat) \<and> (of_char c :: nat) \<le> 57)"

definition isSpace :: "char \<Rightarrow> bool" where
  "isSpace c = ((9 \<le> (of_char c :: nat) \<and> (of_char c :: nat) \<le> 13) \<or> (of_char c :: nat) = 32)"

definition toLowerChar :: "char \<Rightarrow> char" where
  "toLowerChar c =
     (if 65 \<le> (of_char c :: nat) \<and> (of_char c :: nat) \<le> 90
      then char_of ((of_char c :: nat) + 32) else c)"

definition toLowerCase :: "string \<Rightarrow> string" where
  "toLowerCase s = map toLowerChar s"

definition startsWith :: "string \<Rightarrow> string \<Rightarrow> bool" where
  "startsWith s p = (take (length p) s = p)"

text \<open>\<^verbatim>\<open>s.includes(p)\<close>: \<open>p\<close> occurs in \<open>s\<close> as a contiguous substring.\<close>

fun includes_str :: "string \<Rightarrow> string \<Rightarrow> bool" where
  "includes_str [] p = (p = [])"
| "includes_str (c # cs) p = (startsWith (c # cs) p \<or> includes_str cs p)"

definition trim :: "string \<Rightarrow> string" where
  "trim s = rev (dropWhile isSpace (rev (dropWhile isSpace s)))"

text \<open>\<^verbatim>\<open>replace(/\D/g, "")\<close>\<close>

definition stripNonDigits :: "string \<Rightarrow> string" where
  "stripNonDigits s = filter isDigit s"

section \<open>Spend analytics (dashboard.tsx)\<close>

text \<open>
  \<^verbatim>\<open>subscriptions.reduce((total, sub) => total + monthlyCost, 0)\<close> with
  \<^verbatim>\<open>monthlyCost = sub.billingCycle === "annually" ? sub.cost / 12 : sub.cost\<close>.
\<close>

definition monthlyCost :: "subscription \<Rightarrow> real" where
  "monthlyCost sub = (if billingCycle sub = ''annually'' then cost sub / 12 else cost sub)"

definition calculateMonthlySpend :: "subscription list \<Rightarrow> real" where
  "calculateMonthlySpend subscriptions =
     fold (\<lambda>sub total. total + monthlyCost sub) subscriptions 0"

text \<open>\<open>today\<close> is \<^verbatim>\<open>new Date()\<close>, the current local date and time.\<close>

definition getNextRenewal :: "subscription list \<Rightarrow> civil \<Rightarrow> string" where
  "getNextRenewal subscriptions today =
     (if length subscriptions = 0 then ''N/A''
      else
        let upcomingRenewals =
              js_sort (\<lambda>a b. timeDifference (renewalDate a) (renewalDate b))
                (filter (\<lambda>sub. date_ge (renewalDate sub) (Some today)) subscriptions)
        in if length upcomingRenewals = 0 then ''N/A''
           else formatMonthDay (renewalDate (upcomingRenewals ! 0)))"

text \<open>
  The filter of the renewals table, further down in the same component:
  \<^verbatim>\<open>Math.ceil((renewalDate.getTime() - today.getTime()) / (1000 * 3600 * 24))\<close> is
  from 0 to 30. With an invalid date both comparisons are false.
\<close>

definition daysUntilRenewal :: "civil \<Rightarrow> civil \<Rightarrow> int" where
  "daysUntilRenewal renewal today =
     \<lceil>real_of_int (getTime renewal - getTime today) / (1000 * 3600 * 24)\<rceil>"

definition renewsWithin30Days :: "subscription \<Rightarrow> civil \<Rightarrow> bool" where
  "renewsWithin30Days sub today =
     (case renewalDate sub of
        None \<Rightarrow> False
      | Some renewal \<Rightarrow>
          0 \<le> daysUntilRenewal renewal today \<and> daysUntilRenewal renewal today \<le> 30)"

text \<open>
  \<^verbatim>\<open>getLastMonthSpend\<close>: one step back from the renewal date, a month for the billing
  cycle "monthly" and a year for any other, compared with one month before today.
\<close>

definition getLastMonthSpend :: "subscription list \<Rightarrow> civil \<Rightarrow> real" where
  "getLastMonthSpend subscriptions today =
     (let lastMonth = backOneMonth (Some today)
      in fold (\<lambda>sub total.
            let subscriptionStart =
                  (if billingCycle sub = ''monthly'' then backOneMonth (renewalDate sub)
                   else backOneYear (renewalDate sub))
            in if date_le subscriptionStart lastMonth then total + monthlyCost sub else total)
          subscriptions 0)"

definition changePercentage :: "subscription list \<Rightarrow> civil \<Rightarrow> real" where
  "changePercentage subscriptions today =
     (let monthlySpend = calculateMonthlySpend subscriptions;
          lastMonthSpend = getLastMonthSpend subscriptions today
      in if 0 < lastMonthSpend
         then ((monthlySpend - lastMonthSpend) / lastMonthSpend) * 100
         else 0)"

text \<open>
  The two \<^verbatim>\<open>while (subscriptionStart > monthDate)\<close> loops of \<^verbatim>\<open>generateChartData\<close>.
  Each is total: a step lowers the time value (\<open>getTime_backOneMonth\<close>,
  \<open>getTime_backOneYear\<close> below).
\<close>

lemma div_succ:
  fixes a k :: int
  assumes k: "0 < k"
  shows "(a + 1) div k = a div k + (if (a + 1) mod k = 0 then 1 else 0)"
proof -
  define q where "q = a div k"
  define r where "r = a mod k"
  have a: "a = k * q + r" by (simp add: q_def r_def)
  have r: "0 \<le> r" "r < k" using k by (simp_all add: r_def)
  show ?thesis
  proof (cases "r + 1 = k")
    case True
    have e: "a + 1 = k * (q + 1) + 0" using a True by (simp add: algebra_simps)
    have "(a + 1) div k = q + 1" by (rule int_div_pos_eq [OF e]) (use k in simp_all)
    moreover have "(a + 1) mod k = 0" by (rule int_mod_pos_eq [OF e]) (use k in simp_all)
    ultimately show ?thesis by (simp add: q_def)
  next
    case False
    have e: "a + 1 = k * q + (r + 1)" using a by simp
    have "(a + 1) div k = q" by (rule int_div_pos_eq [OF e]) (use r False in simp_all)
    moreover have "(a + 1) mod k = r + 1" by (rule int_mod_pos_eq [OF e]) (use r False in simp_all)
    ultimately show ?thesis using r by (simp add: q_def)
  qed
qed

lemma mod_shift:
  fixes y :: int
  shows "(y - 1968) mod 4 = y mod 4" "(y - 1900) mod 100 = y mod 100"
    "(y - 1600) mod 400 = y mod 400"
proof -
  have "(y - 1968) mod 4 = (y mod 4 - 1968 mod 4) mod 4" by (simp only: mod_diff_eq)
  then show "(y - 1968) mod 4 = y mod 4" by simp
  have "(y - 1900) mod 100 = (y mod 100 - 1900 mod 100) mod 100" by (simp only: mod_diff_eq)
  then show "(y - 1900) mod 100 = y mod 100" by simp
  have "(y - 1600) mod 400 = (y mod 400 - 1600 mod 400) mod 400" by (simp only: mod_diff_eq)
  then show "(y - 1600) mod 400 = y mod 400" by simp
qed

lemma mod_chain:
  fixes y :: int
  shows "y mod 400 = 0 \<Longrightarrow> y mod 100 = 0" "y mod 100 = 0 \<Longrightarrow> y mod 4 = 0"
proof -
  have "y mod 400 mod 100 = y mod 100" by (rule mod_mod_cancel) simp
  then show "y mod 400 = 0 \<Longrightarrow> y mod 100 = 0" by simp
  have "y mod 100 mod 4 = y mod 4" by (rule mod_mod_cancel) simp
  then show "y mod 100 = 0 \<Longrightarrow> y mod 4 = 0" by simp
qed

lemma DayFromYear_Suc: "DayFromYear (y + 1) = DayFromYear y + DaysInYear y"
proof -
  have a: "(y + 1 - 1969) div 4 = (y - 1969) div 4 + (if y mod 4 = 0 then 1 else 0)"
    using div_succ [of 4 "y - 1969"] mod_shift(1) [of y] by (simp add: algebra_simps)
  have b: "(y + 1 - 1901) div 100 = (y - 1901) div 100 + (if y mod 100 = 0 then 1 else 0)"
    using div_succ [of 100 "y - 1901"] mod_shift(2) [of y] by (simp add: algebra_simps)
  have c: "(y + 1 - 1601) div 400 = (y - 1601) div 400 + (if y mod 400 = 0 then 1 else 0)"
    using div_succ [of 400 "y - 1601"] mod_shift(3) [of y] by (simp add: algebra_simps)
  note d = mod_chain [of y]
  have e: "DayFromYear (y + 1) = DayFromYear y + 365 + (if y mod 4 = 0 then 1 else 0)
      - (if y mod 100 = 0 then 1 else 0) + (if y mod 400 = 0 then 1 else 0)"
    unfolding DayFromYear_def a b c by (simp only: algebra_simps)
  consider "y mod 400 = 0" | "y mod 400 \<noteq> 0" "y mod 100 = 0"
    | "y mod 100 \<noteq> 0" "y mod 4 = 0" | "y mod 4 \<noteq> 0"
    by blast
  then show ?thesis
  proof cases
    case 1
    then show ?thesis using d e by (simp add: DaysInYear_def isLeap_def)
  next
    case 2
    then show ?thesis using d e by (simp add: DaysInYear_def isLeap_def)
  next
    case 3
    then have "y mod 400 \<noteq> 0" using d by auto
    with 3 show ?thesis using e by (simp add: DaysInYear_def isLeap_def)
  next
    case 4
    then have "y mod 400 \<noteq> 0" "y mod 100 \<noteq> 0" using d by auto
    with 4 show ?thesis using e by (simp add: DaysInYear_def isLeap_def)
  qed
qed

lemma daysBeforeMonth_0: "daysBeforeMonth y 0 = 0"
  by (simp add: daysBeforeMonth_def)

lemma daysBeforeMonth_Suc:
  "0 \<le> m \<Longrightarrow> daysBeforeMonth y (m + 1) = daysBeforeMonth y m + daysInMonth y m"
  by (simp add: daysBeforeMonth_def upto_rec2)

lemma daysInMonth_pos: "0 < daysInMonth y m"
  by (simp add: daysInMonth_def)

lemma daysBeforeMonth_11: "daysBeforeMonth y 11 + 31 = DaysInYear y"
proof -
  have "[0..10::int] = [0,1,2,3,4,5,6,7,8,9,10]" by (simp add: upto_rec1)
  then show ?thesis
    by (simp add: daysBeforeMonth_def daysInMonth_def DaysInYear_def)
qed

lemma carryDays_value:
  "0 \<le> m \<Longrightarrow> m \<le> 11 \<Longrightarrow> carryDays y m d = (y', m', d') \<Longrightarrow>
     0 \<le> m' \<and> m' \<le> 11 \<and>
     DayFromYear y' + daysBeforeMonth y' m' + d' = DayFromYear y + daysBeforeMonth y m + d"
proof (induction y m d rule: carryDays.induct)
  case (1 y m d)
  show ?case
  proof (cases "daysInMonth y m < d")
    case False
    then have "carryDays y m d = (y, m, d)" by (subst carryDays.simps) simp
    with "1.prems" show ?thesis by simp
  next
    case over: True
    show ?thesis
    proof (cases "m = 11")
      case True
      have "carryDays y m d = carryDays (y + 1) 0 (d - daysInMonth y m)"
        using over True by (subst carryDays.simps) simp
      with "1.prems" have c: "carryDays (y + 1) 0 (d - daysInMonth y m) = (y', m', d')"
        by simp
      have "0 \<le> m' \<and> m' \<le> 11 \<and>
        DayFromYear y' + daysBeforeMonth y' m' + d' =
        DayFromYear (y + 1) + daysBeforeMonth (y + 1) 0 + (d - daysInMonth y m)"
        using "1.IH"(1) [OF over True _ _ c] by simp
      moreover have "daysInMonth y 11 = 31" by (simp add: daysInMonth_def)
      ultimately show ?thesis
        using True daysBeforeMonth_11 [of y]
        by (simp add: DayFromYear_Suc daysBeforeMonth_0)
    next
      case False
      have "carryDays y m d = carryDays y (m + 1) (d - daysInMonth y m)"
        using over False by (subst carryDays.simps) simp
      with "1.prems" have c: "carryDays y (m + 1) (d - daysInMonth y m) = (y', m', d')"
        by simp
      have "0 \<le> m' \<and> m' \<le> 11 \<and>
        DayFromYear y' + daysBeforeMonth y' m' + d' =
        DayFromYear y + daysBeforeMonth y (m + 1) + (d - daysInMonth y m)"
        using "1.IH"(2) [OF over False _ _ c] "1.prems" False by simp
      then show ?thesis
        using "1.prems" by (simp add: daysBeforeMonth_Suc)
    qed
  qed
qed

lemma getTime_fromFields: "getTime (fromFields y m d t) = MakeDay y m d * msPerDay + t"
proof -
  obtain y' m' d' where c: "carryDays (y + m div 12) (m mod 12) d = (y', m', d')"
    by (cases "carryDays (y + m div 12) (m mod 12) d") auto
  have r: "0 \<le> m mod 12" "m mod 12 \<le> 11" by simp_all
  from carryDays_value [OF r c]
  have m': "0 \<le> m'" "m' \<le> 11" and
    v: "DayFromYear y' + daysBeforeMonth y' m' + d' =
        DayFromYear (y + m div 12) + daysBeforeMonth (y + m div 12) (m mod 12) + d"
    by simp_all
  from m' have "m' div 12 = 0" "m' mod 12 = m'" by simp_all
  then show ?thesis
    using v by (simp add: fromFields_def c getTime_def MakeDay_def Let_def)
qed

lemma MakeDay_month_less: "MakeDay y (m - 1) d < MakeDay y m d"
proof (cases "m mod 12 = 0")
  case True
  then have "12 dvd m" by (simp add: dvd_eq_mod_eq_0)
  then obtain q where q: "m = 12 * q" by (auto simp: dvd_def)
  have e: "m - 1 = 12 * (q - 1) + 11" using q by simp
  have dv: "(m - 1) div 12 = q - 1" by (rule int_div_pos_eq [OF e]) simp_all
  have md: "(m - 1) mod 12 = 11" by (rule int_mod_pos_eq [OF e]) simp_all
  have "DayFromYear (y + q - 1 + 1) = DayFromYear (y + q - 1) + DaysInYear (y + q - 1)"
    by (rule DayFromYear_Suc)
  then have s: "DayFromYear (y + q) = DayFromYear (y + q - 1) + daysBeforeMonth (y + q - 1) 11 + 31"
    using daysBeforeMonth_11 [of "y + q - 1"] by simp
  have "m div 12 = q" "m mod 12 = 0" using q by simp_all
  then have a: "MakeDay y m d = DayFromYear (y + q) + d - 1"
    by (simp add: MakeDay_def Let_def daysBeforeMonth_0)
  have "y + (m - 1) div 12 = y + q - 1" using dv by simp
  then have b [unfolded add_diff_eq]: "MakeDay y (m - 1) d =
      DayFromYear (y + q - 1) + daysBeforeMonth (y + q - 1) 11 + d - 1"
    unfolding MakeDay_def Let_def md by (simp add: add_diff_eq)
  show ?thesis unfolding a b s by simp
next
  case False
  define r where "r = m mod 12"
  have r: "1 \<le> r" "r \<le> 11" using False by (simp_all add: r_def) 
  have e: "m - 1 = 12 * (m div 12) + (r - 1)" by (simp add: r_def)
  have dv: "(m - 1) div 12 = m div 12" by (rule int_div_pos_eq [OF e]) (use r in simp_all)
  have md: "(m - 1) mod 12 = r - 1" by (rule int_mod_pos_eq [OF e]) (use r in simp_all)
  have "daysBeforeMonth (y + m div 12) (r - 1 + 1) =
        daysBeforeMonth (y + m div 12) (r - 1) + daysInMonth (y + m div 12) (r - 1)"
    by (rule daysBeforeMonth_Suc) (use r in simp)
  then show ?thesis
    using dv md daysInMonth_pos [of "y + m div 12" "r - 1"]
    by (simp add: MakeDay_def Let_def r_def [symmetric])
qed


lemma daysBeforeMonth_nonneg: "0 \<le> daysBeforeMonth y m"
  unfolding daysBeforeMonth_def
  by (rule sum_list_nonneg) (auto simp: daysInMonth_def)

lemma daysBeforeMonth_le_11:
  assumes "0 \<le> m" "m \<le> 11"
  shows "daysBeforeMonth y m \<le> daysBeforeMonth y 11"
proof -
  have "0 \<le> k \<Longrightarrow> daysBeforeMonth y m \<le> daysBeforeMonth y (m + k)" for k
  proof (induction k rule: int_ge_induct)
    case base
    show ?case by simp
  next
    case (step i)
    have "daysBeforeMonth y (m + i + 1) = daysBeforeMonth y (m + i) + daysInMonth y (m + i)"
      by (rule daysBeforeMonth_Suc) (use assms step in simp)
    then show ?case using step daysInMonth_pos [of y "m + i"] by (simp add: add.assoc)
  qed
  from this [of "11 - m"] assms show ?thesis by simp
qed

lemma MakeDay_year_less: "MakeDay (y - 1) m d < MakeDay y m d"
proof -
  define Y where "Y = y - 1 + m div 12"
  define r where "r = m mod 12"
  have r: "0 \<le> r" "r \<le> 11" by (simp_all add: r_def)
  have a: "MakeDay (y - 1) m d = DayFromYear Y + daysBeforeMonth Y r + d - 1"
    by (simp add: MakeDay_def Let_def Y_def r_def)
  have "y + m div 12 = Y + 1" by (simp add: Y_def)
  then have b: "MakeDay y m d = DayFromYear (Y + 1) + daysBeforeMonth (Y + 1) r + d - 1"
    by (simp add: MakeDay_def Let_def r_def)
  have "daysBeforeMonth Y r \<le> daysBeforeMonth Y 11" by (rule daysBeforeMonth_le_11 [OF r])
  then have "daysBeforeMonth Y r < DaysInYear Y" using daysBeforeMonth_11 [of Y] by simp
  then show ?thesis
    unfolding a b DayFromYear_Suc using daysBeforeMonth_nonneg [of "Y + 1" r] by simp
qed

lemma getTime_backOneMonth: "getTime (setMonth c (month c - 1)) < getTime c"
proof -
  have "MakeDay (year c) (month c - 1) (day c) + 1 \<le> MakeDay (year c) (month c) (day c)"
    using MakeDay_month_less [of "year c" "month c" "day c"] by simp
  then have "(MakeDay (year c) (month c - 1) (day c) + 1) * msPerDay
      \<le> MakeDay (year c) (month c) (day c) * msPerDay"
    by (rule mult_right_mono) (simp add: msPerDay_def)
  then show ?thesis
    unfolding setMonth_def getTime_fromFields
    by (simp add: getTime_def msPerDay_def algebra_simps)
qed

lemma getTime_backOneYear: "getTime (setFullYear c (year c - 1)) < getTime c"
proof -
  have "MakeDay (year c - 1) (month c) (day c) + 1 \<le> MakeDay (year c) (month c) (day c)"
    using MakeDay_year_less [of "year c" "month c" "day c"] by simp
  then have "(MakeDay (year c - 1) (month c) (day c) + 1) * msPerDay
      \<le> MakeDay (year c) (month c) (day c) * msPerDay"
    by (rule mult_right_mono) (simp add: msPerDay_def)
  then show ?thesis
    unfolding setFullYear_def getTime_fromFields
    by (simp add: getTime_def msPerDay_def algebra_simps)
qed

function stepBackMonths :: "jsdate \<Rightarrow> jsdate \<Rightarrow> jsdate" where
  "stepBackMonths subscriptionStart monthDate =
     (if date_gt subscriptionStart monthDate
      then stepBackMonths (backOneMonth subscriptionStart) monthDate
      else subscriptionStart)"
  by pat_completeness auto
termination
proof (relation "measure (\<lambda>(s, m). case (s, m) of
    (Some x, Some y) \<Rightarrow> nat (getTime x - getTime y) | _ \<Rightarrow> 0)")
  show "wf (measure (\<lambda>(s, m). case (s, m) of
    (Some x, Some y) \<Rightarrow> nat (getTime x - getTime y) | _ \<Rightarrow> 0))" by simp
next
  fix subscriptionStart monthDate :: jsdate
  assume "date_gt subscriptionStart monthDate"
  then obtain x y where s: "subscriptionStart = Some x" "monthDate = Some y"
    and gt: "getTime y < getTime x"
    by (auto simp: date_gt_def split: option.splits)
  show "((backOneMonth subscriptionStart, monthDate), (subscriptionStart, monthDate))
    \<in> measure (\<lambda>(s, m). case (s, m) of
    (Some x, Some y) \<Rightarrow> nat (getTime x - getTime y) | _ \<Rightarrow> 0)"
    using s gt getTime_backOneMonth [of x] by (simp add: backOneMonth_def)
qed

function stepBackYears :: "jsdate \<Rightarrow> jsdate \<Rightarrow> jsdate" where
  "stepBackYears subscriptionStart monthDate =
     (if date_gt subscriptionStart monthDate
      then stepBackYears (backOneYear subscriptionStart) monthDate
      else subscriptionStart)"
  by pat_completeness auto
termination
proof (relation "measure (\<lambda>(s, m). case (s, m) of
    (Some x, Some y) \<Rightarrow> nat (getTime x - getTime y) | _ \<Rightarrow> 0)")
  show "wf (measure (\<lambda>(s, m). case (s, m) of
    (Some x, Some y) \<Rightarrow> nat (getTime x - getTime y) | _ \<Rightarrow> 0))" by simp
next
  fix subscriptionStart monthDate :: jsdate
  assume "date_gt subscriptionStart monthDate"
  then obtain x y where s: "subscriptionStart = Some x" "monthDate = Some y"
    and gt: "getTime y < getTime x"
    by (auto simp: date_gt_def split: option.splits)
  show "((backOneYear subscriptionStart, monthDate), (subscriptionStart, monthDate))
    \<in> measure (\<lambda>(s, m). case (s, m) of
    (Some x, Some y) \<Rightarrow> nat (getTime x - getTime y) | _ \<Rightarrow> 0)"
    using s gt getTime_backOneYear [of x] by (simp add: backOneYear_def)
qed

declare stepBackMonths.simps [simp del] stepBackYears.simps [simp del]


text \<open>
  The estimate of one month in \<^verbatim>\<open>generateChartData\<close>: the \<^verbatim>\<open>forEach\<close> that adds the
  monthly cost of every subscription whose stepped-back start date is on or before
  \<open>monthDate\<close>.
\<close>

definition assumedStart :: "subscription \<Rightarrow> jsdate \<Rightarrow> jsdate" where
  "assumedStart sub monthDate =
     (if billingCycle sub = ''monthly'' then stepBackMonths (renewalDate sub) monthDate
      else stepBackYears (renewalDate sub) monthDate)"

definition rawMonthSpend :: "subscription list \<Rightarrow> jsdate \<Rightarrow> real" where
  "rawMonthSpend subscriptions monthDate =
     fold (\<lambda>sub monthSpend.
        if date_le (assumedStart sub monthDate) monthDate then monthSpend + monthlyCost sub
        else monthSpend)
      subscriptions 0"

record trendPoint =
  point_name :: string
  total :: real

text \<open>
  One pass of the \<^verbatim>\<open>for\<close> loop, for the counter \<open>i\<close> and the value \<open>rnd\<close> that
  \<^verbatim>\<open>Math.random()\<close> returns in that pass.
\<close>

definition chartPoint :: "subscription list \<Rightarrow> civil \<Rightarrow> real \<Rightarrow> int \<Rightarrow> trendPoint" where
  "chartPoint subscriptions today rnd i =
     (let monthDate = newDate (year today) (month today - i) 1;
          monthName = formatMonth monthDate;
          monthSpend = rawMonthSpend subscriptions monthDate;
          variation = (rnd - 0.5) * 0.3;
          adjustedSpend = max 0 (monthSpend * (1 + variation))
      in \<lparr>point_name = monthName, total = toFixed2 adjustedSpend\<rparr>)"

text \<open>
  \<^verbatim>\<open>for (let i = 11; i >= 0; i--)\<close>: twelve passes, the \<open>k\<close>-th with \<open>i = 11 - k\<close> and
  the \<open>k\<close>-th value of the randomness source.
\<close>

definition generateChartData ::
  "subscription list \<Rightarrow> civil \<Rightarrow> (nat \<Rightarrow> real) \<Rightarrow> trendPoint list" where
  "generateChartData subscriptions today random =
     map (\<lambda>k. chartPoint subscriptions today (random k) (11 - int k)) [0..<12]"

subsection \<open>Category breakdown\<close>

text \<open>
  \<^verbatim>\<open>categoryTotals\<close> is an object literal used as a dictionary: its own properties in
  creation order, under \<^verbatim>\<open>Object.prototype\<close>. Reading a key that is not an own property
  but names a method of the prototype yields a function, and \<^verbatim>\<open>+\<close> then builds a string;
  \<^verbatim>\<open>__proto__\<close> reads the prototype itself and the assignment of the string to it is
  ignored.
\<close>

datatype jsvalue = Number real | NotNumber

datatype js_error = TypeError

definition objectPrototypeMethods :: "string list" where
  "objectPrototypeMethods =
     [''constructor'', ''__defineGetter__'', ''__defineSetter__'', ''hasOwnProperty'',
      ''__lookupGetter__'', ''__lookupSetter__'', ''isPrototypeOf'', ''propertyIsEnumerable'',
      ''toString'', ''valueOf'', ''toLocaleString'']"

definition setOwn ::
  "string \<Rightarrow> jsvalue \<Rightarrow> (string \<times> jsvalue) list \<Rightarrow> (string \<times> jsvalue) list" where
  "setOwn k v props =
     (if k \<in> set (map fst props)
      then map (\<lambda>(k', v'). if k' = k then (k', v) else (k', v')) props
      else props @ [(k, v)])"

text \<open>
  The numbers of the category breakdown. The code rounds twice there, with \<^verbatim>\<open>toFixed\<close>
  and with \<^verbatim>\<open>Math.round\<close>, and which way a double rounds is decided by its last bit
  (23 / 40 * 100 is 57.49999999999999 in doubles, not 57.5). So this function is modelled
  over the arithmetic of the host: a number is the real that the double denotes, and the
  sum, the quotient, the product and the two roundings are the host's, parameters of the
  model. \<^verbatim>\<open>NaN\<close> and the infinities are left out.
\<close>

record arith =
  num_add :: "real \<Rightarrow> real \<Rightarrow> real"
  num_div :: "real \<Rightarrow> real \<Rightarrow> real"
  num_mul :: "real \<Rightarrow> real \<Rightarrow> real"
  num_toFixed2 :: "real \<Rightarrow> real"
  num_round :: "real \<Rightarrow> int"

text \<open>
  \<^verbatim>\<open>sub.billingCycle === "annually" ? sub.cost / 12 : sub.cost\<close> and
  \<^verbatim>\<open>calculateMonthlySpend()\<close> in the arithmetic \<open>ops\<close>.
\<close>

definition monthlyCostIn :: "arith \<Rightarrow> subscription \<Rightarrow> real" where
  "monthlyCostIn ops sub =
     (if billingCycle sub = ''annually'' then num_div ops (cost sub) 12 else cost sub)"

definition calculateMonthlySpendIn :: "arith \<Rightarrow> subscription list \<Rightarrow> real" where
  "calculateMonthlySpendIn ops subscriptions =
     fold (\<lambda>sub total. num_add ops total (monthlyCostIn ops sub)) subscriptions 0"

text \<open>
  \<^verbatim>\<open>categoryTotals[k] = (categoryTotals[k] || 0) + monthlyCost\<close>; a stored number is
  falsy when it is zero.
\<close>

definition addToCategory ::
  "arith \<Rightarrow> (string \<times> jsvalue) list \<Rightarrow> string \<Rightarrow> real \<Rightarrow> (string \<times> jsvalue) list" where
  "addToCategory ops categoryTotals k mc =
     (case map_of categoryTotals k of
        Some (Number v) \<Rightarrow>
          setOwn k (Number (num_add ops (if v = 0 then 0 else v) mc)) categoryTotals
      | Some NotNumber \<Rightarrow> setOwn k NotNumber categoryTotals
      | None \<Rightarrow>
          if k = ''__proto__'' then categoryTotals
          else if k \<in> set objectPrototypeMethods then setOwn k NotNumber categoryTotals
          else setOwn k (Number (num_add ops 0 mc)) categoryTotals)"

text \<open>
  \<^verbatim>\<open>Object.entries\<close>: keys that are array indices first, in ascending numeric order, then
  the other keys in creation order.
\<close>

definition parseNat :: "string \<Rightarrow> nat" where
  "parseNat k = foldl (\<lambda>n c. 10 * n + ((of_char c :: nat) - 48)) 0 k"

definition isArrayIndex :: "string \<Rightarrow> bool" where
  "isArrayIndex k =
     (k \<noteq> [] \<and> list_all isDigit k \<and> (k = ''0'' \<or> hd k \<noteq> CHR ''0'')
      \<and> parseNat k < 2 ^ 32 - 1)"

definition Object_entries :: "(string \<times> 'v) list \<Rightarrow> (string \<times> 'v) list" where
  "Object_entries props =
     sort_key (\<lambda>(k, v). parseNat k) (filter (\<lambda>(k, v). isArrayIndex k) props)
     @ filter (\<lambda>(k, v). \<not> isArrayIndex k) props"

definition getCategoryColor :: "string \<Rightarrow> string" where
  "getCategoryColor c =
     (case map_of [(''Entertainment'', ''#2563eb''), (''Music'', ''#3b82f6''),
                   (''Productivity'', ''#10b981''), (''Design'', ''#f59e0b''),
                   (''Shopping'', ''#ef4444'')] c of
        Some col \<Rightarrow> col | None \<Rightarrow> ''#64748b'')"

record categoryBucket =
  bucket_category :: string
  spend :: real
  percentage :: int
  color :: string

text \<open>\<^verbatim>\<open>Array.prototype.map\<close> with a callback that can throw.\<close>

fun mapResult :: "('a \<Rightarrow> 'e + 'b) \<Rightarrow> 'a list \<Rightarrow> 'e + 'b list" where
  "mapResult f [] = Inr []"
| "mapResult f (x # xs) =
     (case f x of Inl e \<Rightarrow> Inl e
      | Inr y \<Rightarrow> (case mapResult f xs of Inl e \<Rightarrow> Inl e | Inr ys \<Rightarrow> Inr (y # ys)))"

text \<open>
  \<^verbatim>\<open>amount.toFixed(2)\<close> throws a \<^verbatim>\<open>TypeError\<close> when \<open>amount\<close> is a string.
\<close>

definition getCategorySpending ::
  "arith \<Rightarrow> subscription list \<Rightarrow> js_error + categoryBucket list" where
  "getCategorySpending ops subscriptions =
     (if length subscriptions = 0 then Inr []
      else
        let totalMonthlySpend = calculateMonthlySpendIn ops subscriptions
        in if totalMonthlySpend = 0 then Inr []
           else
             let categoryTotals =
                   fold (\<lambda>sub totals.
                       addToCategory ops totals (category sub) (monthlyCostIn ops sub))
                     subscriptions []
             in mapResult (\<lambda>(category, amount).
                    case amount of
                      NotNumber \<Rightarrow> Inl TypeError
                    | Number a \<Rightarrow>
                        Inr \<lparr>bucket_category = category,
                             spend = num_toFixed2 ops a,
                             percentage =
                               num_round ops (num_mul ops (num_div ops a totalMonthlySpend) 100),
                             color = getCategoryColor category\<rparr>)
                  (Object_entries categoryTotals))"

text \<open>
  The arithmetic without rounding error, with the two roundings of the exact values. It
  agrees with the doubles wherever no operation is inexact and no rounding is at a tie.
\<close>

definition exactArith :: arith where
  "exactArith =
     \<lparr>num_add = (+), num_div = (/), num_mul = (*),
      num_toFixed2 = toFixed2, num_round = Math_round\<rparr>"

section \<open>Subscription registry (subscription.tsx)\<close>

text \<open>
  \<^verbatim>\<open>String.prototype.localeCompare\<close> is the collation of the host; it is a parameter of
  the model. Its result is negative, zero or positive.
\<close>

definition filteredAndSortedSubscriptions ::
  "(string \<Rightarrow> string \<Rightarrow> int) \<Rightarrow> subscription list \<Rightarrow> string \<Rightarrow> string \<Rightarrow> string
     \<Rightarrow> subscription list" where
  "filteredAndSortedSubscriptions localeCompare subscriptions searchTerm filterBy sortBy =
     js_sort (\<lambda>a b.
         if sortBy = ''name'' then of_int (localeCompare (name a) (name b))
         else if sortBy = ''cost'' then cost b - cost a
         else if sortBy = ''renewal'' then timeDifference (renewalDate a) (renewalDate b)
         else 0)
       (filter (\<lambda>sub.
           let matchesSearch = includes_str (toLowerCase (name sub)) (toLowerCase searchTerm);
               matchesFilter = (filterBy = ''all'' \<or> category sub = filterBy)
           in matchesSearch \<and> matchesFilter)
         subscriptions)"

section \<open>Payment flow (PaymentModal)\<close>

text \<open>
  \<^verbatim>\<open>v.match(/\d{4,16}/g)\<close>, first match: at the first position where at least four
  digits follow, the digits there, sixteen at most.
\<close>

fun firstDigitRun :: "string \<Rightarrow> string option" where
  "firstDigitRun [] = None"
| "firstDigitRun (c # cs) =
     (let run = takeWhile isDigit (c # cs)
      in if 4 \<le> length run then Some (take 16 run) else firstDigitRun cs)"

function chunks4 :: "string \<Rightarrow> string list" where
  "chunks4 s = (if s = [] then [] else take 4 s # chunks4 (drop 4 s))"
  by pat_completeness auto
termination
  by (relation "measure length") auto

declare chunks4.simps [simp del]

fun join :: "string \<Rightarrow> string list \<Rightarrow> string" where
  "join sep [] = []"
| "join sep [p] = p"
| "join sep (p # q # ps) = p @ sep @ join sep (q # ps)"

definition formatCardNumber :: "string \<Rightarrow> string" where
  "formatCardNumber value =
     (let v = filter isDigit (filter (\<lambda>c. \<not> isSpace c) value);
          matches = firstDigitRun v;
          match = (case matches of Some m \<Rightarrow> m | None \<Rightarrow> []);
          parts = chunks4 match
      in if length parts \<noteq> 0 then join '' '' parts else v)"

definition getCardType :: "string \<Rightarrow> string" where
  "getCardType cardNumber =
     (let num = stripNonDigits cardNumber
      in if startsWith num ''4'' then ''Visa''
         else if startsWith num ''5'' \<or> startsWith num ''2'' then ''Mastercard''
         else if startsWith num ''3'' then ''American Express''
         else [])"

datatype PaymentStep = Payment | Summary | Processing | Success

record PaymentInfo =
  cardNumber :: string
  expiryDate :: string
  cvv :: string
  cardholderName :: string

text \<open>
  The state of the modal: the three \<^verbatim>\<open>useState\<close> cells. \<open>errors\<close> is an object
  used as a dictionary; its keys are written in creation order.
\<close>

record modal =
  currentStep :: PaymentStep
  paymentInfo :: PaymentInfo
  errors :: "(string \<times> string) list"

text \<open>
  \<^verbatim>\<open>validatePayment\<close> builds \<open>newErrors\<close>, stores it with \<^verbatim>\<open>setErrors\<close> and returns
  whether it has no key.
\<close>

definition validatePayment :: "modal \<Rightarrow> modal \<times> bool" where
  "validatePayment s =
     (let info = paymentInfo s;
          e1 = (if trim (cardNumber info) = []
                then [(''cardNumber'', ''Card number is required'')]
                else if length (stripNonDigits (cardNumber info)) < 13
                then [(''cardNumber'', ''Invalid card number'')] else []);
          e2 = (if trim (expiryDate info) = []
                then [(''expiryDate'', ''Expiry date is required'')] else []);
          e3 = (if trim (cvv info) = [] then [(''cvv'', ''CVV is required'')] else []);
          e4 = (if trim (cardholderName info) = []
                then [(''cardholderName'', ''Cardholder name is required'')] else []);
          newErrors = e1 @ e2 @ e3 @ e4
      in (s\<lparr>errors := newErrors\<rparr>, length newErrors = 0))"

definition handleContinueToSummary :: "modal \<Rightarrow> modal" where
  "handleContinueToSummary s =
     (case validatePayment s of
        (s', ok) \<Rightarrow> if ok then s'\<lparr>currentStep := Summary\<rparr> else s')"

text \<open>
  The modal inside the dashboard. \<open>showPaymentModal\<close> and \<open>selectedSubscription\<close> are
  the dashboard's cells. The dashboard renders
  \<^verbatim>\<open>{showPaymentModal && selectedSubscription && <PaymentModal ... />}\<close>, so the modal is
  mounted while both are set: \<open>mounted\<close> is the mounted instance, numbered, with its
  cells, and an instance that is unmounted loses its cells. \<open>timers\<close> are the callbacks
  handed to \<^verbatim>\<open>setTimeout\<close> that have not fired yet, with their delays in milliseconds.
\<close>

datatype request = SetCurrentStep nat PaymentStep

datatype callback = SetCurrentStepSuccess nat

record flow =
  mounted :: "(nat \<times> modal) option"
  nextInstance :: nat
  showPaymentModal :: bool
  selectedSubscription :: "subscription option"
  timers :: "(nat \<times> callback) list"

text \<open>The initial values of the modal's \<^verbatim>\<open>useState\<close> cells.\<close>

definition initialModal :: modal where
  "initialModal =
     \<lparr>currentStep = Payment,
      paymentInfo = \<lparr>cardNumber = [], expiryDate = [], cvv = [], cardholderName = []\<rparr>,
      errors = []\<rparr>"

text \<open>
  The render of the dashboard after a change of its cells: it mounts a new instance of the
  modal, keeps the mounted one, or unmounts it.
\<close>

definition render :: "flow \<Rightarrow> flow" where
  "render st =
     (if showPaymentModal st \<and> selectedSubscription st \<noteq> None
      then (case mounted st of
              None \<Rightarrow> st\<lparr>mounted := Some (nextInstance st, initialModal),
                         nextInstance := Suc (nextInstance st)\<rparr>
            | Some inst \<Rightarrow> st)
      else st\<lparr>mounted := None\<rparr>)"

definition handlePayNow :: "subscription \<Rightarrow> flow \<Rightarrow> flow" where
  "handlePayNow subscription st =
     render (st\<lparr>selectedSubscription := Some subscription, showPaymentModal := True\<rparr>)"

definition handleClosePayment :: "flow \<Rightarrow> flow" where
  "handleClosePayment st =
     render (st\<lparr>showPaymentModal := False, selectedSubscription := None\<rparr>)"

text \<open>
  The state setter \<^verbatim>\<open>setCurrentStep\<close> of the instance \<open>i\<close>, as the UI runtime runs
  it: the update of an instance that is no longer mounted is dropped.
\<close>

fun dispatch :: "request \<Rightarrow> flow \<Rightarrow> flow" where
  "dispatch (SetCurrentStep i step) st =
     (case mounted st of
        None \<Rightarrow> st
      | Some (j, m) \<Rightarrow>
          if j = i then st\<lparr>mounted := Some (j, m\<lparr>currentStep := step\<rparr>)\<rparr> else st)"

text \<open>
  \<^verbatim>\<open>handleConfirmPayment\<close> of the instance \<open>i\<close>: \<^verbatim>\<open>setCurrentStep("processing")\<close>,
  then \<^verbatim>\<open>setTimeout(() => { setCurrentStep("success"); }, 3000)\<close>.
\<close>

definition handleConfirmPayment :: "nat \<Rightarrow> flow \<Rightarrow> flow" where
  "handleConfirmPayment i st =
     (dispatch (SetCurrentStep i Processing) st)
       \<lparr>timers := timers st @ [(3000, SetCurrentStepSuccess i)]\<rparr>"

text \<open>
  The body of the deferred callback: it reads nothing of the flow and calls
  \<^verbatim>\<open>setCurrentStep("success")\<close>.
\<close>

fun runCallback :: "callback \<Rightarrow> flow \<Rightarrow> request list" where
  "runCallback (SetCurrentStepSuccess i) st = [SetCurrentStep i Success]"

text \<open>The event loop runs the oldest pending callback and the runtime its updates.\<close>

definition fireTimer :: "flow \<Rightarrow> flow" where
  "fireTimer st =
     (case timers st of
        [] \<Rightarrow> st
      | (delay, cb) # rest \<Rightarrow>
          fold dispatch (runCallback cb (st\<lparr>timers := rest\<rparr>)) (st\<lparr>timers := rest\<rparr>))"

section \<open>Predicates and inputs of the theorems\<close>

text \<open>
  The check of the Continue action, in the words of the payment step: all four fields are
  non-empty after trimming and the card number has at least 13 digits.
\<close>

definition fieldsValid :: "PaymentInfo \<Rightarrow> bool" where
  "fieldsValid info =
     (trim (cardNumber info) \<noteq> [] \<and> 13 \<le> length (stripNonDigits (cardNumber info))
      \<and> trim (expiryDate info) \<noteq> [] \<and> trim (cvv info) \<noteq> []
      \<and> trim (cardholderName info) \<noteq> [])"

definition blankNameState :: modal where
  "blankNameState =
     \<lparr>currentStep = Payment,
      paymentInfo = \<lparr>cardNumber = ''4111 1111 1111 1111'', expiryDate = ''12/25'',
                     cvv = ''123'', cardholderName = '' ''\<rparr>,
      errors = []\<rparr>"

definition validCardState :: modal where
  "validCardState =
     \<lparr>currentStep = Payment,
      paymentInfo = \<lparr>cardNumber = ''4111 1111 1111 1111'', expiryDate = ''12/25'',
                     cvv = ''123'', cardholderName = ''A Person''\<rparr>,
      errors = []\<rparr>"

text \<open>Subscriptions and a current time for the examples: 2 November 2025, noon.\<close>

definition sub1 :: subscription where
  "sub1 = \<lparr>sub_id = ''1'', name = ''Netflix'', cost = 199, billingCycle = ''monthly'',
            renewalDate = Some \<lparr>year = 2025, month = 10, day = 1, msec = 0\<rparr>,
            category = ''Entertainment''\<rparr>"

definition sub2 :: subscription where
  "sub2 = \<lparr>sub_id = ''2'', name = ''Figma'', cost = 100, billingCycle = ''annually'',
            renewalDate = Some \<lparr>year = 2026, month = 0, day = 3, msec = 0\<rparr>,
            category = ''Design''\<rparr>"

definition sub3 :: subscription where
  "sub3 = \<lparr>sub_id = ''3'', name = ''Spotify'', cost = 119, billingCycle = ''monthly'',
            renewalDate = Some \<lparr>year = 2026, month = 0, day = 3, msec = 0\<rparr>,
            category = ''Music''\<rparr>"

definition exampleToday :: civil where
  "exampleToday = \<lparr>year = 2025, month = 10, day = 2, msec = 43200000\<rparr>"

definition sub4 :: subscription where
  "sub4 = \<lparr>sub_id = ''4'', name = ''Notion'', cost = 80, billingCycle = ''monthly'',
            renewalDate = Some \<lparr>year = 2025, month = 11, day = 25, msec = 0\<rparr>,
            category = ''Productivity''\<rparr>"

text \<open>
  A comparator is consistent on a set when it is total and transitive there; this is what
  \<^verbatim>\<open>Array.prototype.sort\<close> asks of it.
\<close>

definition consistentOn :: "('a \<Rightarrow> 'a \<Rightarrow> real) \<Rightarrow> 'a set \<Rightarrow> bool" where
  "consistentOn cmp S =
     ((\<forall>a\<in>S. \<forall>b\<in>S. cmp a b \<le> 0 \<or> cmp b a \<le> 0)
      \<and> (\<forall>a\<in>S. \<forall>b\<in>S. \<forall>c\<in>S. cmp a b \<le> 0 \<longrightarrow> cmp b c \<le> 0 \<longrightarrow> cmp a c \<le> 0))"

text \<open>A renewal is upcoming when it is not before the current time.\<close>

definition upcoming :: "civil \<Rightarrow> subscription \<Rightarrow> bool" where
  "upcoming today sub = date_ge (renewalDate sub) (Some today)"

text \<open>A collation for the examples: the order of the code units.\<close>

fun codeUnitCompare :: "string \<Rightarrow> string \<Rightarrow> int" where
  "codeUnitCompare [] [] = 0"
| "codeUnitCompare [] (y # ys) = - 1"
| "codeUnitCompare (x # xs) [] = 1"
| "codeUnitCompare (x # xs) (y # ys) =
     (if (of_char x :: nat) < of_char y then - 1
      else if (of_char y :: nat) < of_char x then 1
      else codeUnitCompare xs ys)"

text \<open>
  A category is an ordinary key of \<^verbatim>\<open>categoryTotals\<close> when it names nothing that
  the object inherits from \<^verbatim>\<open>Object.prototype\<close>.
\<close>

definition ordinaryKey :: "string \<Rightarrow> bool" where
  "ordinaryKey k = (k \<noteq> ''__proto__'' \<and> k \<notin> set objectPrototypeMethods)"

text \<open>The sum of the normalized monthly costs of the subscriptions of a category.\<close>

definition categorySpend :: "subscription list \<Rightarrow> string \<Rightarrow> real" where
  "categorySpend subs c = sum_list (map monthlyCost (filter (\<lambda>s. category s = c) subs))"

text \<open>
  The number stored under a key, and the dictionaries all of whose values are numbers.
\<close>

definition amountOf :: "(string \<times> jsvalue) list \<Rightarrow> string \<Rightarrow> real" where
  "amountOf props c = (case map_of props c of Some (Number v) \<Rightarrow> v | _ \<Rightarrow> 0)"

definition numeric :: "(string \<times> jsvalue) list \<Rightarrow> bool" where
  "numeric props = (distinct (map fst props) \<and> (\<forall>(k, v)\<in>set props. v \<noteq> NotNumber))"

text \<open>Three categories with the same monthly spend.\<close>

definition exampleThirds :: "subscription list" where
  "exampleThirds =
     [\<lparr>sub_id = ''a'', name = ''Netflix'', cost = 10, billingCycle = ''monthly'',
       renewalDate = None, category = ''Entertainment''\<rparr>,
      \<lparr>sub_id = ''b'', name = ''Spotify'', cost = 4, billingCycle = ''monthly'',
       renewalDate = None, category = ''Music''\<rparr>,
      \<lparr>sub_id = ''c'', name = ''Figma'', cost = 120, billingCycle = ''annually'',
       renewalDate = None, category = ''Design''\<rparr>,
      \<lparr>sub_id = ''d'', name = ''Tidal'', cost = 6, billingCycle = ''monthly'',
       renewalDate = None, category = ''Music''\<rparr>]"

text \<open>
  The accumulated total of a category in the arithmetic \<open>ops\<close>: the monthly costs of its
  subscriptions added from left to right, starting from 0.
\<close>

definition categoryTotalIn :: "arith \<Rightarrow> subscription list \<Rightarrow> string \<Rightarrow> real" where
  "categoryTotalIn ops subs c =
     fold (\<lambda>sub total. num_add ops total (monthlyCostIn ops sub))
       (filter (\<lambda>s. category s = c) subs) 0"

text \<open>A subscription whose renewal date is the day of \<open>exampleToday\<close>.\<close>

definition renewalToday :: civil where
  "renewalToday = \<lparr>year = 2025, month = 10, day = 2, msec = 0\<rparr>"

definition subDueToday :: subscription where
  "subDueToday =
     \<lparr>sub_id = ''5'', name = ''Netflix'', cost = 199, billingCycle = ''monthly'',
      renewalDate = Some renewalToday, category = ''Entertainment''\<rparr>"

text \<open>
  A flow whose modal, instance 0, is open in the summary step, and the same flow after Pay
  and then a close during the processing step.
\<close>

definition flowInSummary :: flow where
  "flowInSummary =
     \<lparr>mounted = Some (0, validCardState\<lparr>currentStep := Summary\<rparr>),
      nextInstance = 1,
      showPaymentModal = True,
      selectedSubscription = Some sub1,
      timers = []\<rparr>"

definition closedWhileProcessing :: flow where
  "closedWhileProcessing = handleClosePayment (handleConfirmPayment 0 flowInSummary)"

text \<open>
  Two categories with the costs 23 and 17, and an arithmetic that is exact but for the one
  product that the doubles round down: 23 / 40 * 100 is 57.49999999999999 there.
\<close>

definition twoCategories :: "subscription list" where
  "twoCategories =
     [\<lparr>sub_id = ''a'', name = ''Netflix'', cost = 23, billingCycle = ''monthly'',
       renewalDate = None, category = ''Entertainment''\<rparr>,
      \<lparr>sub_id = ''b'', name = ''Spotify'', cost = 17, billingCycle = ''monthly'',
       renewalDate = None, category = ''Music''\<rparr>]"

definition productRoundedDown :: arith where
  "productRoundedDown =
     exactArith\<lparr>num_mul := (\<lambda>a b. if a = 23 / 40 \<and> b = 100
                                  then 5749999999999999 / 100000000000000 else a * b)\<rparr>"

section \<open>Monthly spend\<close>

lemma fold_add_monthlyCost:
  "fold (\<lambda>sub total. total + monthlyCost sub) subs a = a + sum_list (map monthlyCost subs)"
  by (induction subs arbitrary: a) (simp_all add: add.assoc)

text \<open>
  C1: the monthly spend total is the sum, over all subscriptions of the collection, of the
  normalized monthly cost: cost / 12 for billing cycle "annually", the cost unchanged for
  any other billing cycle. The total is a function of the collection alone.
\<close>

theorem calculateMonthlySpend_sum:
  "calculateMonthlySpend subs =
     (\<Sum>sub\<leftarrow>subs. if billingCycle sub = ''annually'' then cost sub / 12 else cost sub)"
proof -
  have "monthlyCost = (\<lambda>sub. if billingCycle sub = ''annually'' then cost sub / 12 else cost sub)"
    by (rule ext) (simp add: monthlyCost_def)
  then show ?thesis
    unfolding calculateMonthlySpend_def fold_add_monthlyCost by simp
qed

section \<open>Card number formatting and card type\<close>

lemma formatCardNumber_example:
  "formatCardNumber ''4111111111111111'' = ''4111 1111 1111 1111''"
  by code_simp

lemma getCardType_example: "getCardType ''4111111111111111'' = ''Visa''"
  by code_simp

lemma getCardType_cases:
  "getCardType s =
     (case stripNonDigits s of
        [] \<Rightarrow> []
      | c # cs \<Rightarrow>
          if c = CHR ''4'' then ''Visa''
          else if c = CHR ''5'' \<or> c = CHR ''2'' then ''Mastercard''
          else if c = CHR ''3'' then ''American Express''
          else [])"
  by (simp add: getCardType_def startsWith_def Let_def split: list.splits)

text \<open>
  C10: \<open>formatCardNumber\<close> turns "4111111111111111" into "4111 1111 1111 1111", and
  \<open>getCardType\<close> classifies by the first digit left after stripping the non-digits:
  4 is Visa, 5 or 2 Mastercard, 3 American Express (the label the code gives Amex), and any
  other first digit, or no digit at all, gives the empty label; on "4111111111111111" it
  returns "Visa".
\<close>

theorem card_number_format_and_type:
  "formatCardNumber ''4111111111111111'' = ''4111 1111 1111 1111''
   \<and> getCardType ''4111111111111111'' = ''Visa''
   \<and> getCardType s =
       (case stripNonDigits s of
          [] \<Rightarrow> []
        | c # cs \<Rightarrow>
            if c = CHR ''4'' then ''Visa''
            else if c = CHR ''5'' \<or> c = CHR ''2'' then ''Mastercard''
            else if c = CHR ''3'' then ''American Express''
            else [])"
  using formatCardNumber_example getCardType_example getCardType_cases [of s] by simp

section \<open>Validation of the payment step\<close>

lemma validatePayment_ok: "snd (validatePayment s) = fieldsValid (paymentInfo s)"
  by (auto simp: validatePayment_def fieldsValid_def Let_def)

lemma validatePayment_state:
  "fst (validatePayment s) = s\<lparr>errors := errors (fst (validatePayment s))\<rparr>"
  by (simp add: validatePayment_def Let_def)

lemma validatePayment_errors:
  "map_of (errors (fst (validatePayment s))) ''cardNumber'' =
     (if trim (cardNumber (paymentInfo s)) = [] then Some ''Card number is required''
      else if length (stripNonDigits (cardNumber (paymentInfo s))) < 13
      then Some ''Invalid card number'' else None)"
  "map_of (errors (fst (validatePayment s))) ''expiryDate'' =
     (if trim (expiryDate (paymentInfo s)) = [] then Some ''Expiry date is required'' else None)"
  "map_of (errors (fst (validatePayment s))) ''cvv'' =
     (if trim (cvv (paymentInfo s)) = [] then Some ''CVV is required'' else None)"
  "map_of (errors (fst (validatePayment s))) ''cardholderName'' =
     (if trim (cardholderName (paymentInfo s)) = [] then Some ''Cardholder name is required''
      else None)"
  by (simp_all add: validatePayment_def Let_def)

lemma validatePayment_keys:
  "set (map fst (errors (fst (validatePayment s))))
     \<subseteq> {''cardNumber'', ''expiryDate'', ''cvv'', ''cardholderName''}"
  by (auto simp: validatePayment_def Let_def)

lemma handleContinueToSummary_eq:
  "handleContinueToSummary s =
     (if fieldsValid (paymentInfo s)
      then s\<lparr>errors := errors (fst (validatePayment s)), currentStep := Summary\<rparr>
      else s\<lparr>errors := errors (fst (validatePayment s))\<rparr>)"
proof -
  obtain s' ok where v: "validatePayment s = (s', ok)" by (cases "validatePayment s") auto
  have ok: "ok = fieldsValid (paymentInfo s)" using validatePayment_ok [of s] v by simp
  have s': "s' = s\<lparr>errors := errors s'\<rparr>" using validatePayment_state [of s] v by simp
  have "handleContinueToSummary s = (if ok then s'\<lparr>currentStep := Summary\<rparr> else s')"
    by (simp add: handleContinueToSummary_def v)
  also have "\<dots> = (if ok then s\<lparr>errors := errors s', currentStep := Summary\<rparr>
      else s\<lparr>errors := errors s'\<rparr>)"
    using s' by (metis (full_types))
  finally show ?thesis using ok v by simp
qed

text \<open>
  C9: in the payment step the Continue action moves the flow to the summary step if and
  only if all four fields are non-empty after trimming and the card number has at least 13
  digits after stripping the non-digits. When the validation fails the step stays, nothing
  but the error messages changes, and each field has its message exactly when it fails.
\<close>

theorem continue_validates_payment:
  assumes "currentStep s = Payment"
  shows "((currentStep (handleContinueToSummary s) = Summary) = fieldsValid (paymentInfo s))
    \<and> (\<not> fieldsValid (paymentInfo s) \<longrightarrow>
          handleContinueToSummary s = s\<lparr>errors := errors (handleContinueToSummary s)\<rparr>)
    \<and> paymentInfo (handleContinueToSummary s) = paymentInfo s
    \<and> map_of (errors (handleContinueToSummary s)) ''cardNumber'' =
        (if trim (cardNumber (paymentInfo s)) = [] then Some ''Card number is required''
         else if length (stripNonDigits (cardNumber (paymentInfo s))) < 13
         then Some ''Invalid card number'' else None)
    \<and> map_of (errors (handleContinueToSummary s)) ''expiryDate'' =
        (if trim (expiryDate (paymentInfo s)) = [] then Some ''Expiry date is required''
         else None)
    \<and> map_of (errors (handleContinueToSummary s)) ''cvv'' =
        (if trim (cvv (paymentInfo s)) = [] then Some ''CVV is required'' else None)
    \<and> map_of (errors (handleContinueToSummary s)) ''cardholderName'' =
        (if trim (cardholderName (paymentInfo s)) = []
         then Some ''Cardholder name is required'' else None)
    \<and> set (map fst (errors (handleContinueToSummary s)))
        \<subseteq> {''cardNumber'', ''expiryDate'', ''cvv'', ''cardholderName''}"
proof -
  have e: "errors (handleContinueToSummary s) = errors (fst (validatePayment s))"
    by (simp add: handleContinueToSummary_eq)
  have a: "(currentStep (handleContinueToSummary s) = Summary) = fieldsValid (paymentInfo s)"
    using assms by (simp add: handleContinueToSummary_eq)
  have b: "\<not> fieldsValid (paymentInfo s) \<longrightarrow>
      handleContinueToSummary s = s\<lparr>errors := errors (handleContinueToSummary s)\<rparr>"
    by (simp add: handleContinueToSummary_eq)
  have c: "paymentInfo (handleContinueToSummary s) = paymentInfo s"
    by (simp add: handleContinueToSummary_eq)
  show ?thesis
    unfolding e using a b c validatePayment_errors [of s] validatePayment_keys [of s]
    unfolding e by blast
qed

theorem continue_validates_payment_witness:
  "currentStep validCardState = Payment
   \<and> currentStep (handleContinueToSummary validCardState) = Summary
   \<and> currentStep blankNameState = Payment
   \<and> handleContinueToSummary blankNameState =
       blankNameState\<lparr>errors := [(''cardholderName'', ''Cardholder name is required'')]\<rparr>"
proof -
  have p1: "currentStep validCardState = Payment" by (simp add: validCardState_def)
  have p2: "currentStep blankNameState = Payment" by (simp add: blankNameState_def)
  have v1: "fieldsValid (paymentInfo validCardState)" by code_simp
  have v2: "\<not> fieldsValid (paymentInfo blankNameState)" by code_simp
  have e2: "errors (handleContinueToSummary blankNameState) =
      [(''cardholderName'', ''Cardholder name is required'')]" by code_simp
  from continue_validates_payment [OF p1] v1
  have "currentStep (handleContinueToSummary validCardState) = Summary" by blast
  moreover from continue_validates_payment [OF p2] v2
  have "handleContinueToSummary blankNameState =
      blankNameState\<lparr>errors := errors (handleContinueToSummary blankNameState)\<rparr>" by blast
  ultimately show ?thesis using p1 p2 e2 by simp
qed

section \<open>Change percentage\<close>

lemma fold_cond_nonneg:
  fixes f :: "'a \<Rightarrow> real"
  assumes "\<forall>x\<in>set xs. 0 \<le> f x" "0 \<le> a"
  shows "0 \<le> fold (\<lambda>x t. if P x then t + f x else t) xs a"
  using assms by (induction xs arbitrary: a) auto

lemma monthlyCost_nonneg: "0 \<le> cost s \<Longrightarrow> 0 \<le> monthlyCost s"
  by (simp add: monthlyCost_def)

lemma getLastMonthSpend_nonneg:
  assumes "\<forall>s\<in>set subs. 0 \<le> cost s"
  shows "0 \<le> getLastMonthSpend subs today"
proof -
  have m: "\<forall>s\<in>set subs. 0 \<le> monthlyCost s" using assms by (simp add: monthlyCost_nonneg)
  show ?thesis
    unfolding getLastMonthSpend_def Let_def
    by (rule fold_cond_nonneg [OF m]) simp
qed

text \<open>
  C6: for a collection with non-negative costs, the last-month spend is either positive, and
  then the change percentage is (monthlySpend - lastMonthSpend) / lastMonthSpend * 100, or
  it is zero, and then the change percentage is exactly 0 whatever the monthly spend is.
  No division by zero is evaluated.
\<close>

theorem changePercentage_guarded:
  assumes "\<forall>s\<in>set subs. 0 \<le> cost s"
  shows "(0 < getLastMonthSpend subs today \<and>
          changePercentage subs today =
            (calculateMonthlySpend subs - getLastMonthSpend subs today)
              / getLastMonthSpend subs today * 100)
       \<or> (getLastMonthSpend subs today = 0 \<and> changePercentage subs today = 0)"
  using getLastMonthSpend_nonneg [OF assms, of today]
  by (auto simp: changePercentage_def Let_def)

theorem changePercentage_guarded_witness:
  "0 \<le> cost sub1 \<and> 0 \<le> cost sub3
   \<and> getLastMonthSpend [sub1, sub3] exampleToday = 199
   \<and> changePercentage [sub1, sub3] exampleToday = (318 - 199) / 199 * 100
   \<and> calculateMonthlySpend [sub3] = 119
   \<and> getLastMonthSpend [sub3] exampleToday = 0
   \<and> changePercentage [sub3] exampleToday = 0"
proof -
  have c: "0 \<le> cost sub1" "0 \<le> cost sub3" by (simp_all add: sub1_def sub3_def)
  have h1: "\<forall>s\<in>set [sub1, sub3]. 0 \<le> cost s" using c by simp
  have h3: "\<forall>s\<in>set [sub3]. 0 \<le> cost s" using c by simp
  have l1: "getLastMonthSpend [sub1, sub3] exampleToday = 199" by code_simp
  have m1: "calculateMonthlySpend [sub1, sub3] = 318" by code_simp
  have l3: "getLastMonthSpend [sub3] exampleToday = 0" by code_simp
  have m3: "calculateMonthlySpend [sub3] = 119" by code_simp
  from changePercentage_guarded [OF h1, of exampleToday]
  have "changePercentage [sub1, sub3] exampleToday = (318 - 199) / 199 * 100"
    unfolding l1 m1 by simp
  moreover from changePercentage_guarded [OF h3, of exampleToday]
  have "changePercentage [sub3] exampleToday = 0"
    unfolding l3 by simp
  ultimately show ?thesis using c l1 l3 m3 by simp
qed


section \<open>The Date model keeps well-formed dates\<close>

lemma carryDays_range:
  "0 \<le> m \<Longrightarrow> m \<le> 11 \<Longrightarrow> 1 \<le> d \<Longrightarrow> carryDays y m d = (y', m', d') \<Longrightarrow>
     0 \<le> m' \<and> m' \<le> 11 \<and> 1 \<le> d' \<and> d' \<le> daysInMonth y' m'"
proof (induction y m d rule: carryDays.induct)
  case (1 y m d)
  show ?case
  proof (cases "daysInMonth y m < d")
    case False
    then have "carryDays y m d = (y, m, d)" by (subst carryDays.simps) simp
    with "1.prems" False show ?thesis by simp
  next
    case over: True
    then have d: "1 \<le> d - daysInMonth y m" by simp
    show ?thesis
    proof (cases "m = 11")
      case True
      have "carryDays y m d = carryDays (y + 1) 0 (d - daysInMonth y m)"
        using over True by (subst carryDays.simps) simp
      with "1.prems" have c: "carryDays (y + 1) 0 (d - daysInMonth y m) = (y', m', d')"
        by simp
      show ?thesis using "1.IH"(1) [OF over True _ _ d c] by simp
    next
      case False
      have "carryDays y m d = carryDays y (m + 1) (d - daysInMonth y m)"
        using over False by (subst carryDays.simps) simp
      with "1.prems" have c: "carryDays y (m + 1) (d - daysInMonth y m) = (y', m', d')"
        by simp
      show ?thesis using "1.IH"(2) [OF over False _ _ d c] "1.prems" False by simp
    qed
  qed
qed

lemma fromFields_wellFormed:
  assumes "1 \<le> d" "0 \<le> t" "t < msPerDay"
  shows "wellFormed (fromFields y m d t)"
proof -
  obtain y' m' d' where c: "carryDays (y + m div 12) (m mod 12) d = (y', m', d')"
    by (cases "carryDays (y + m div 12) (m mod 12) d") auto
  have r: "0 \<le> m mod 12" "m mod 12 \<le> 11" by simp_all
  from carryDays_range [OF r assms(1) c] assms(2,3) show ?thesis
    by (simp add: fromFields_def c wellFormed_def)
qed

lemma setMonth_wellFormed: "wellFormed c \<Longrightarrow> wellFormed (setMonth c m)"
  unfolding setMonth_def by (rule fromFields_wellFormed) (simp_all add: wellFormed_def)

lemma setFullYear_wellFormed: "wellFormed c \<Longrightarrow> wellFormed (setFullYear c y)"
  unfolding setFullYear_def by (rule fromFields_wellFormed) (simp_all add: wellFormed_def)

lemma getTime_examples:
  "getTime \<lparr>year = 1970, month = 0, day = 1, msec = 0\<rparr> = 0"
  "getTime \<lparr>year = 2025, month = 10, day = 2, msec = 0\<rparr> = 1762041600000"
  "getTime \<lparr>year = 1969, month = 11, day = 31, msec = 0\<rparr> = - 86400000"
  "setMonth \<lparr>year = 2025, month = 2, day = 31, msec = 0\<rparr> 1
     = \<lparr>year = 2025, month = 2, day = 3, msec = 0\<rparr>"
  "setFullYear \<lparr>year = 2024, month = 1, day = 29, msec = 0\<rparr> 2023
     = \<lparr>year = 2023, month = 2, day = 1, msec = 0\<rparr>"
  "setMonth \<lparr>year = 2025, month = 0, day = 15, msec = 7\<rparr> (- 1)
     = \<lparr>year = 2024, month = 11, day = 15, msec = 7\<rparr>"
  by code_simp+

section \<open>The twelve-month trend\<close>

lemma stepBackMonths_le:
  "start \<noteq> None \<Longrightarrow> md \<noteq> None \<Longrightarrow> date_le (stepBackMonths start md) md"
proof (induction start md rule: stepBackMonths.induct)
  case (1 subscriptionStart monthDate)
  show ?case
  proof (cases "date_gt subscriptionStart monthDate")
    case True
    moreover have "backOneMonth subscriptionStart \<noteq> None"
      using "1.prems" by (simp add: backOneMonth_def)
    ultimately show ?thesis
      using "1.IH" "1.prems" by (subst stepBackMonths.simps) simp
  next
    case False
    then have "date_le subscriptionStart monthDate"
      using "1.prems" by (auto simp: date_gt_def date_le_def)
    with False show ?thesis by (subst stepBackMonths.simps) simp
  qed
qed

lemma stepBackYears_le:
  "start \<noteq> None \<Longrightarrow> md \<noteq> None \<Longrightarrow> date_le (stepBackYears start md) md"
proof (induction start md rule: stepBackYears.induct)
  case (1 subscriptionStart monthDate)
  show ?case
  proof (cases "date_gt subscriptionStart monthDate")
    case True
    moreover have "backOneYear subscriptionStart \<noteq> None"
      using "1.prems" by (simp add: backOneYear_def)
    ultimately show ?thesis
      using "1.IH" "1.prems" by (subst stepBackYears.simps) simp
  next
    case False
    then have "date_le subscriptionStart monthDate"
      using "1.prems" by (auto simp: date_gt_def date_le_def)
    with False show ?thesis by (subst stepBackYears.simps) simp
  qed
qed

lemma assumedStart_le:
  "renewalDate sub \<noteq> None \<Longrightarrow> md \<noteq> None \<Longrightarrow> date_le (assumedStart sub md) md"
  by (simp add: assumedStart_def stepBackMonths_le stepBackYears_le)

lemma fold_cond_all:
  fixes f :: "'a \<Rightarrow> real"
  assumes "\<forall>x\<in>set xs. P x"
  shows "fold (\<lambda>x t. if P x then t + f x else t) xs a = fold (\<lambda>x t. t + f x) xs a"
  using assms by (induction xs arbitrary: a) auto

lemma rawMonthSpend_all:
  assumes "\<forall>s\<in>set subs. renewalDate s \<noteq> None" "md \<noteq> None"
  shows "rawMonthSpend subs md = calculateMonthlySpend subs"
proof -
  have "\<forall>s\<in>set subs. date_le (assumedStart s md) md"
    using assms by (simp add: assumedStart_le)
  then show ?thesis
    unfolding rawMonthSpend_def calculateMonthlySpend_def by (rule fold_cond_all)
qed

text \<open>
  C3: in \<open>generateChartData\<close>, for every subscription with a well-formed renewal date
  and every target month, the backward-stepping loop ends (both loops are total functions)
  with an assumed start on or before the target month, so the inclusion test holds and the
  raw estimate of the month, before the jitter, is the current total monthly spend,
  whatever the renewal dates and billing cycles are. The twelve target months are
  \<open>i = 0, \<dots>, 11\<close>; the statement holds for every \<open>i\<close>.
\<close>

theorem chart_estimate_is_current_spend:
  assumes "\<forall>s\<in>set subs. renewalDate s \<noteq> None"
  shows "(\<forall>s\<in>set subs.
            date_le (assumedStart s (newDate (year today) (month today - i) 1))
              (newDate (year today) (month today - i) 1))
         \<and> rawMonthSpend subs (newDate (year today) (month today - i) 1)
             = calculateMonthlySpend subs"
proof -
  have md: "newDate (year today) (month today - i) 1 \<noteq> None" by (simp add: newDate_def)
  show ?thesis
    using assms rawMonthSpend_all [OF assms md] assumedStart_le [OF _ md] by blast
qed

theorem chart_estimate_is_current_spend_witness:
  "renewalDate sub1 \<noteq> None \<and> renewalDate sub2 \<noteq> None \<and> renewalDate sub3 \<noteq> None
   \<and> date_le (assumedStart sub2 (newDate 2025 (10 - 11) 1)) (newDate 2025 (10 - 11) 1)
   \<and> rawMonthSpend [sub1, sub2, sub3] (newDate 2025 (10 - 11) 1) = 199 + 100 / 12 + 119"
proof -
  have v: "renewalDate sub1 \<noteq> None" "renewalDate sub2 \<noteq> None" "renewalDate sub3 \<noteq> None"
    by (simp_all add: sub1_def sub2_def sub3_def)
  then have h: "\<forall>s\<in>set [sub1, sub2, sub3]. renewalDate s \<noteq> None" by simp
  have t: "year exampleToday = 2025" "month exampleToday = 10" by (simp_all add: exampleToday_def)
  have c: "calculateMonthlySpend [sub1, sub2, sub3] = 199 + 100 / 12 + 119" by code_simp
  show ?thesis
    using v chart_estimate_is_current_spend [OF h, of exampleToday 11]
    unfolding t c by simp
qed

text \<open>
  A subscription whose renewal date is an invalid date is never counted by the estimate,
  while \<open>calculateMonthlySpend\<close> counts it.
\<close>

lemma rawMonthSpend_invalid_date:
  "renewalDate s = None \<Longrightarrow> rawMonthSpend [s] md = 0"
  by (simp add: rawMonthSpend_def assumedStart_def date_le_def date_gt_def
      stepBackMonths.simps [of None] stepBackYears.simps [of None])

lemma carryDays_first: "carryDays y m 1 = (y, m, 1)"
  by (subst carryDays.simps) (simp add: daysInMonth_def)

lemma formatMonth_newDate: "formatMonth (newDate y m 1) = monthShort (m mod 12)"
  by (simp add: formatMonth_def newDate_def fromFields_def carryDays_first)

lemma toFixed2_close: "\<bar>toFixed2 x - x\<bar> \<le> 1 / 200"
proof -
  have r: "\<bar>of_int \<lfloor>y * 100 + 1 / 2\<rfloor> / 100 - y\<bar> \<le> 1 / 200" for y :: real
  proof -
    define n :: real where "n = of_int \<lfloor>y * 100 + 1 / 2\<rfloor>"
    have "n \<le> y * 100 + 1 / 2" unfolding n_def by (rule of_int_floor_le)
    moreover have "y * 100 + 1 / 2 < n + 1" unfolding n_def by linarith
    ultimately have "\<bar>n / 100 - y\<bar> \<le> 1 / 200" by linarith
    then show ?thesis by (simp only: n_def)
  qed
  show ?thesis
  proof (cases "10 ^ 21 \<le> \<bar>x\<bar>")
    case True
    then show ?thesis by (simp add: toFixed2_def)
  next
    case big: False
    show ?thesis
    proof (cases "x < 0")
      case True
      have "toFixed2 x - x = - (of_int \<lfloor>- x * 100 + 1 / 2\<rfloor> / 100 - (- x))"
        using big True by (simp add: toFixed2_def)
      then show ?thesis using r [of "- x"] by (simp only: abs_minus_cancel)
    next
      case False
      then show ?thesis using big r [of x] by (simp add: toFixed2_def)
    qed
  qed
qed

lemma rawMonthSpend_nonneg:
  assumes "\<forall>s\<in>set subs. 0 \<le> cost s"
  shows "0 \<le> rawMonthSpend subs md"
proof -
  have m: "\<forall>s\<in>set subs. 0 \<le> monthlyCost s" using assms by (simp add: monthlyCost_nonneg)
  show ?thesis
    unfolding rawMonthSpend_def by (rule fold_cond_nonneg [OF m]) simp
qed

lemma chartPoint_fields:
  assumes "\<forall>s\<in>set subs. 0 \<le> cost s" "0 \<le> rnd" "rnd < 1"
  shows "point_name (chartPoint subs today rnd i) = monthShort ((month today - i) mod 12)"
    and "total (chartPoint subs today rnd i) =
      toFixed2 (rawMonthSpend subs (newDate (year today) (month today - i) 1)
        * (1 + (rnd - 0.5) * 0.3))"
proof -
  show "point_name (chartPoint subs today rnd i) = monthShort ((month today - i) mod 12)"
    by (simp add: chartPoint_def Let_def formatMonth_newDate)
  have "0 \<le> 1 + (rnd - 0.5) * 0.3" using assms(2) by (simp add: field_simps)
  then have "0 \<le> rawMonthSpend subs (newDate (year today) (month today - i) 1)
      * (1 + (rnd - 0.5) * 0.3)"
    using rawMonthSpend_nonneg [OF assms(1)] by (intro mult_nonneg_nonneg) simp_all
  then show "total (chartPoint subs today rnd i) =
      toFixed2 (rawMonthSpend subs (newDate (year today) (month today - i) 1)
        * (1 + (rnd - 0.5) * 0.3))"
    by (simp add: chartPoint_def Let_def max_def)
qed

text \<open>
  C7, as the code has it: for non-negative costs and every randomness source with values
  in [0, 1), \<open>generateChartData\<close> returns exactly 12 points, the \<open>k\<close>-th named
  after the calendar month \<open>11 - k\<close> months before the current one (oldest first, the
  current month last); the variation lies between -15% and +15%, and the total is the raw
  estimate times (1 + variation) rounded to two decimals, so it is within 0.005 of that
  product.
\<close>

theorem chart_points_rounded_jitter:
  assumes "\<forall>s\<in>set subs. 0 \<le> cost s" and "\<forall>k<12. 0 \<le> random k \<and> random k < 1"
  shows "length (generateChartData subs today random) = 12
    \<and> (\<forall>k<12.
          point_name (generateChartData subs today random ! k)
            = monthShort ((month today - (11 - int k)) mod 12)
          \<and> - 0.15 \<le> (random k - 0.5) * 0.3 \<and> (random k - 0.5) * 0.3 \<le> 0.15
          \<and> total (generateChartData subs today random ! k)
            = toFixed2 (rawMonthSpend subs (newDate (year today) (month today - (11 - int k)) 1)
                * (1 + (random k - 0.5) * 0.3))
          \<and> \<bar>total (generateChartData subs today random ! k)
              - rawMonthSpend subs (newDate (year today) (month today - (11 - int k)) 1)
                * (1 + (random k - 0.5) * 0.3)\<bar> \<le> 0.005)"
proof -
  have len: "length (generateChartData subs today random) = 12"
    by (simp add: generateChartData_def)
  have pt: "generateChartData subs today random ! k
      = chartPoint subs today (random k) (11 - int k)" if "k < 12" for k
    using that by (simp add: generateChartData_def)
  have each: "point_name (generateChartData subs today random ! k)
            = monthShort ((month today - (11 - int k)) mod 12)
          \<and> - 0.15 \<le> (random k - 0.5) * 0.3 \<and> (random k - 0.5) * 0.3 \<le> 0.15
          \<and> total (generateChartData subs today random ! k)
            = toFixed2 (rawMonthSpend subs (newDate (year today) (month today - (11 - int k)) 1)
                * (1 + (random k - 0.5) * 0.3))
          \<and> \<bar>total (generateChartData subs today random ! k)
              - rawMonthSpend subs (newDate (year today) (month today - (11 - int k)) 1)
                * (1 + (random k - 0.5) * 0.3)\<bar> \<le> 0.005" if k: "k < 12" for k
  proof -
    have r: "0 \<le> random k" "random k < 1" using assms(2) k by simp_all
    note f = chartPoint_fields [OF assms(1) r, of today "11 - int k"]
    have v: "- 0.15 \<le> (random k - 0.5) * 0.3" "(random k - 0.5) * 0.3 \<le> 0.15"
      using r by (simp_all add: field_simps)
    have c: "\<bar>toFixed2 (rawMonthSpend subs (newDate (year today) (month today - (11 - int k)) 1)
                * (1 + (random k - 0.5) * 0.3))
              - rawMonthSpend subs (newDate (year today) (month today - (11 - int k)) 1)
                * (1 + (random k - 0.5) * 0.3)\<bar> \<le> 0.005"
      using toFixed2_close
        [of "rawMonthSpend subs (newDate (year today) (month today - (11 - int k)) 1)
                * (1 + (random k - 0.5) * 0.3)"] by simp
    show ?thesis unfolding pt [OF k] f using v c by simp
  qed
  show ?thesis using len each by blast
qed

theorem chart_points_rounded_jitter_witness:
  "0 \<le> cost sub2
   \<and> length (generateChartData [sub2] exampleToday (\<lambda>k. 0)) = 12
   \<and> point_name (generateChartData [sub2] exampleToday (\<lambda>k. 0) ! 0) = ''Dec''
   \<and> point_name (generateChartData [sub2] exampleToday (\<lambda>k. 0) ! 11) = ''Nov''
   \<and> \<bar>total (generateChartData [sub2] exampleToday (\<lambda>k. 0) ! 0) - 100 / 12 * 0.85\<bar> \<le> 0.005"
proof -
  have c: "0 \<le> cost sub2" by (simp add: sub2_def)
  then have h1: "\<forall>s\<in>set [sub2]. 0 \<le> cost s" by simp
  have h2: "\<forall>k<12. 0 \<le> (\<lambda>k::nat. 0::real) k \<and> (\<lambda>k::nat. 0::real) k < 1" by simp
  note t = chart_points_rounded_jitter [OF h1 h2, of exampleToday]
  have m: "month exampleToday = 10" "year exampleToday = 2025" by (simp_all add: exampleToday_def)
  have r: "rawMonthSpend [sub2]
      (newDate (year exampleToday) (month exampleToday - (11 - int 0)) 1) = 25 / 3"
    by code_simp
  have n0: "monthShort ((10 - 11) mod 12) = ''Dec''" by code_simp
  have n11: "monthShort (10 mod 12) = ''Nov''" by code_simp
  from t have "point_name (generateChartData [sub2] exampleToday (\<lambda>k. 0) ! 0)
      = monthShort ((month exampleToday - (11 - int 0)) mod 12)"
    by (meson zero_less_numeral)
  then have p0: "point_name (generateChartData [sub2] exampleToday (\<lambda>k. 0) ! 0) = ''Dec''"
    using n0 by (simp add: m)
  have lt: "(11::nat) < 12" by simp
  from t lt have "point_name (generateChartData [sub2] exampleToday (\<lambda>k. 0) ! 11)
      = monthShort ((month exampleToday - (11 - int 11)) mod 12)"
    by blast
  then have p11: "point_name (generateChartData [sub2] exampleToday (\<lambda>k. 0) ! 11) = ''Nov''"
    using n11 by (simp add: m)
  from t have "\<bar>total (generateChartData [sub2] exampleToday (\<lambda>k. 0) ! 0)
      - rawMonthSpend [sub2] (newDate (year exampleToday) (month exampleToday - (11 - int 0)) 1)
        * (1 + (0 - 0.5) * 0.3)\<bar> \<le> 0.005"
    by (meson zero_less_numeral)
  then have d: "\<bar>total (generateChartData [sub2] exampleToday (\<lambda>k. 0) ! 0) - 100 / 12 * 0.85\<bar>
      \<le> 0.005"
    unfolding r by simp
  from t have len: "length (generateChartData [sub2] exampleToday (\<lambda>k. 0)) = 12" by blast
  show ?thesis using c len p0 p11 d by blast
qed


text \<open>
  C7 as stated fails: with one annual subscription of cost 100 and the randomness source
  at 0, or at 1 / 10000, the oldest point has the total 7.08, below 0.85 times the raw
  estimate 100 / 12.
\<close>

theorem chart_point_below_range:
  "total (generateChartData [sub2] exampleToday (\<lambda>k. 0) ! 0)
     < 0.85 * rawMonthSpend [sub2] (newDate (year exampleToday) (month exampleToday - 11) 1)
   \<and> total (generateChartData [sub2] exampleToday (\<lambda>k. 1 / 10000) ! 0)
     < 0.85 * rawMonthSpend [sub2] (newDate (year exampleToday) (month exampleToday - 11) 1)"
  by code_simp

section \<open>Sorting with a comparator\<close>

lemma mset_insertSorted: "mset (insertSorted cmp x xs) = add_mset x (mset xs)"
  by (induction xs) auto

lemma mset_js_sort: "mset (js_sort cmp xs) = mset xs"
  unfolding js_sort_def by (induction xs) (auto simp: mset_insertSorted)

lemma set_insertSorted: "set (insertSorted cmp x xs) = insert x (set xs)"
  using mset_insertSorted [of cmp x xs, THEN arg_cong, of set_mset] by simp

lemma set_js_sort: "set (js_sort cmp xs) = set xs"
  using mset_js_sort [of cmp xs, THEN arg_cong, of set_mset] by simp

lemma consistentOn_subset: "consistentOn cmp S \<Longrightarrow> T \<subseteq> S \<Longrightarrow> consistentOn cmp T"
  unfolding consistentOn_def by blast

lemma sorted_insertSorted:
  assumes "consistentOn cmp (insert x (set ys))" "sorted_wrt (\<lambda>a b. cmp a b \<le> 0) ys"
  shows "sorted_wrt (\<lambda>a b. cmp a b \<le> 0) (insertSorted cmp x ys)"
  using assms
proof (induction ys)
  case Nil
  then show ?case by simp
next
  case (Cons y ys)
  have tot: "cmp x y \<le> 0 \<or> cmp y x \<le> 0"
    using Cons.prems(1) unfolding consistentOn_def by simp
  have tr: "\<And>a b c. a \<in> insert x (set (y # ys)) \<Longrightarrow> b \<in> insert x (set (y # ys))
      \<Longrightarrow> c \<in> insert x (set (y # ys)) \<Longrightarrow> cmp a b \<le> 0 \<Longrightarrow> cmp b c \<le> 0 \<Longrightarrow> cmp a c \<le> 0"
    using Cons.prems(1) unfolding consistentOn_def by blast
  show ?case
  proof (cases "cmp x y \<le> 0")
    case True
    have "\<forall>z\<in>set ys. cmp x z \<le> 0"
    proof
      fix z assume z: "z \<in> set ys"
      then have "cmp y z \<le> 0" using Cons.prems(2) by simp
      with True z show "cmp x z \<le> 0" by (intro tr [of x y z]) simp_all
    qed
    with True Cons.prems(2) show ?thesis by simp
  next
    case False
    then have yx: "cmp y x \<le> 0" using tot by simp
    have c: "consistentOn cmp (insert x (set ys))"
      by (rule consistentOn_subset [OF Cons.prems(1)]) auto
    have s: "sorted_wrt (\<lambda>a b. cmp a b \<le> 0) (insertSorted cmp x ys)"
      using Cons.IH [OF c] Cons.prems(2) by simp
    have "\<forall>z\<in>set (insertSorted cmp x ys). cmp y z \<le> 0"
      using yx Cons.prems(2) by (simp add: set_insertSorted)
    with False s show ?thesis by simp
  qed
qed

lemma sorted_js_sort:
  assumes "consistentOn cmp (set xs)"
  shows "sorted_wrt (\<lambda>a b. cmp a b \<le> 0) (js_sort cmp xs)"
  using assms
proof (induction xs)
  case Nil
  then show ?case by (simp add: js_sort_def)
next
  case (Cons x xs)
  have c: "consistentOn cmp (set xs)"
    by (rule consistentOn_subset [OF Cons.prems]) auto
  have s: "sorted_wrt (\<lambda>a b. cmp a b \<le> 0) (js_sort cmp xs)" by (rule Cons.IH [OF c])
  have "sorted_wrt (\<lambda>a b. cmp a b \<le> 0) (insertSorted cmp x (js_sort cmp xs))"
    by (rule sorted_insertSorted) (use Cons.prems s in \<open>simp_all add: set_js_sort\<close>)
  then show ?case by (simp add: js_sort_def)
qed

lemma js_sort_first_least:
  assumes "consistentOn cmp (set xs)" "xs \<noteq> []"
  shows "js_sort cmp xs ! 0 \<in> set xs \<and> (\<forall>u\<in>set xs. cmp (js_sort cmp xs ! 0) u \<le> 0)"
proof -
  have ne: "js_sort cmp xs \<noteq> []" using assms(2) set_js_sort [of cmp xs] by auto
  then obtain y ys where ys: "js_sort cmp xs = y # ys" by (cases "js_sort cmp xs") auto
  have y: "y \<in> set xs" using ys set_js_sort [of cmp xs] by auto
  have s: "sorted_wrt (\<lambda>a b. cmp a b \<le> 0) (y # ys)"
    using sorted_js_sort [OF assms(1)] ys by simp
  have "cmp y u \<le> 0" if u: "u \<in> set xs" for u
  proof (cases "u = y")
    case True
    then show ?thesis using assms(1) y unfolding consistentOn_def by blast
  next
    case False
    then have "u \<in> set ys" using u ys set_js_sort [of cmp xs] by auto
    then show ?thesis using s by simp
  qed
  then show ?thesis using y ys by simp
qed


section \<open>Next renewal\<close>

lemma timeDifference_consistent:
  fixes S :: "subscription set"
  assumes "\<forall>s\<in>S. renewalDate s \<noteq> None"
  shows "consistentOn (\<lambda>a b. timeDifference (renewalDate a) (renewalDate b)) S"
  unfolding consistentOn_def
proof (intro conjI ballI impI)
  fix a b assume "a \<in> S" "b \<in> S"
  then have "renewalDate a \<noteq> None" "renewalDate b \<noteq> None" using assms by simp_all
  then show "timeDifference (renewalDate a) (renewalDate b) \<le> 0
      \<or> timeDifference (renewalDate b) (renewalDate a) \<le> 0"
    by (auto simp: timeDifference_def)
next
  fix a b c assume "a \<in> S" "b \<in> S" "c \<in> S"
    and ab: "timeDifference (renewalDate a) (renewalDate b) \<le> 0"
    and bc: "timeDifference (renewalDate b) (renewalDate c) \<le> 0"
  then have "renewalDate a \<noteq> None" "renewalDate b \<noteq> None" "renewalDate c \<noteq> None"
    using assms by simp_all
  with ab bc show "timeDifference (renewalDate a) (renewalDate c) \<le> 0"
    by (auto simp: timeDifference_def)
qed

lemma timeDifference_le:
  "a \<noteq> None \<Longrightarrow> b \<noteq> None \<Longrightarrow> (timeDifference a b \<le> 0) = date_le a b"
  by (auto simp: timeDifference_def date_le_def)

lemma upcoming_valid: "upcoming today s \<Longrightarrow> renewalDate s \<noteq> None"
  by (auto simp: upcoming_def date_ge_def split: option.splits)


text \<open>
  What the code computes: \<open>upcoming\<close> compares the renewal with the current instant,
  time of day included. When no renewal is at or after that instant the label is "N/A";
  otherwise it is the least such renewal, formatted as month and day.
\<close>

lemma getNextRenewal_by_instant:
  "(\<not> (\<exists>s\<in>set subs. upcoming today s) \<longrightarrow> getNextRenewal subs today = ''N/A'')
   \<and> ((\<exists>s\<in>set subs. upcoming today s) \<longrightarrow>
        (\<exists>s\<in>set subs. upcoming today s
           \<and> (\<forall>u\<in>set subs. upcoming today u \<longrightarrow> date_le (renewalDate s) (renewalDate u))
           \<and> getNextRenewal subs today = formatMonthDay (renewalDate s)))"
proof -
  define ups where "ups = filter (upcoming today) subs"
  define cmp :: "subscription \<Rightarrow> subscription \<Rightarrow> real"
    where "cmp = (\<lambda>a b. timeDifference (renewalDate a) (renewalDate b))"
  have g: "getNextRenewal subs today =
      (if subs = [] then ''N/A''
       else if js_sort cmp ups = [] then ''N/A''
       else formatMonthDay (renewalDate (js_sort cmp ups ! 0)))"
    unfolding getNextRenewal_def ups_def cmp_def upcoming_def [abs_def] by (simp add: Let_def)
  have e: "(js_sort cmp ups = []) = (ups = [])"
    using set_js_sort [of cmp ups] by (metis set_empty)
  show ?thesis
  proof (cases "\<exists>s\<in>set subs. upcoming today s")
    case False
    then have "ups = []" by (auto simp: ups_def filter_empty_conv)
    with False show ?thesis using g e by simp
  next
    case True
    then have ne: "ups \<noteq> []" by (auto simp: ups_def filter_empty_conv)
    have v: "\<forall>s\<in>set ups. renewalDate s \<noteq> None"
      by (auto simp: ups_def dest: upcoming_valid)
    have c: "consistentOn cmp (set ups)" unfolding cmp_def by (rule timeDifference_consistent [OF v])
    define s where "s = js_sort cmp ups ! 0"
    from js_sort_first_least [OF c ne]
    have s: "s \<in> set ups" and least: "\<forall>u\<in>set ups. cmp s u \<le> 0" by (simp_all add: s_def)
    have su: "s \<in> set subs" "upcoming today s" using s by (simp_all add: ups_def)
    have "date_le (renewalDate s) (renewalDate u)" if "u \<in> set subs" "upcoming today u" for u
    proof -
      have "u \<in> set ups" using that by (simp add: ups_def)
      then have "cmp s u \<le> 0" using least by simp
      then show ?thesis
        using timeDifference_le [of "renewalDate s" "renewalDate u"]
          upcoming_valid [OF su(2)] upcoming_valid [OF that(2)]
        by (simp add: cmp_def)
    qed
    moreover have "getNextRenewal subs today = formatMonthDay (renewalDate s)"
      using g e ne True by (auto simp: s_def)
    ultimately show ?thesis using True su by blast
  qed
qed

text \<open>
  C5 fails on the code for a renewal dated today. The renewal date is a calendar date,
  read as the midnight that starts it, and \<open>today\<close> is the current instant: at noon of
  2 November 2025 a subscription that renews on 2 November 2025 is not strictly in the
  past, yet the filter \<^verbatim>\<open>new Date(sub.renewalDate) >= today\<close> drops it and the label is
  "N/A" instead of "Nov 2". The renewals table of the same component counts this
  subscription as due in 0 days.
\<close>

theorem getNextRenewal_misses_today:
  "renewalDate subDueToday = Some renewalToday
   \<and> year renewalToday = year exampleToday
   \<and> month renewalToday = month exampleToday
   \<and> day renewalToday = day exampleToday
   \<and> formatMonthDay (renewalDate subDueToday) = ''Nov 2''
   \<and> getNextRenewal [subDueToday] exampleToday = ''N/A''
   \<and> daysUntilRenewal renewalToday exampleToday = 0
   \<and> renewsWithin30Days subDueToday exampleToday"
  by code_simp

section \<open>The registry view\<close>

lemma startsWith_iff: "startsWith s p = (\<exists>post. s = p @ post)"
proof
  assume "startsWith s p"
  then have "s = p @ drop (length p) s"
    unfolding startsWith_def by (metis append_take_drop_id)
  then show "\<exists>post. s = p @ post" ..
next
  assume "\<exists>post. s = p @ post"
  then show "startsWith s p" by (auto simp: startsWith_def)
qed

lemma includes_str_iff: "includes_str s p = (\<exists>pre post. s = pre @ p @ post)"
proof (induction s)
  case Nil
  then show ?case by auto
next
  case (Cons c cs)
  show ?case
  proof
    assume "includes_str (c # cs) p"
    then consider "startsWith (c # cs) p" | "includes_str cs p" by auto
    then show "\<exists>pre post. c # cs = pre @ p @ post"
    proof cases
      case 1
      then obtain post where "c # cs = [] @ p @ post" by (auto simp: startsWith_iff)
      then show ?thesis by blast
    next
      case 2
      then obtain pre post where "cs = pre @ p @ post" using Cons.IH by auto
      then have "c # cs = (c # pre) @ p @ post" by simp
      then show ?thesis by blast
    qed
  next
    assume "\<exists>pre post. c # cs = pre @ p @ post"
    then obtain pre post where e: "c # cs = pre @ p @ post" by auto
    show "includes_str (c # cs) p"
    proof (cases pre)
      case Nil
      then have "startsWith (c # cs) p" using e by (auto simp: startsWith_iff)
      then show ?thesis by simp
    next
      case (Cons d pre')
      then have "cs = pre' @ p @ post" using e by simp
      then have "includes_str cs p" using Cons.IH by auto
      then show ?thesis by simp
    qed
  qed
qed

lemma cost_consistent:
  "consistentOn (\<lambda>a b :: subscription. cost b - cost a) S"
  unfolding consistentOn_def by auto

text \<open>
  C8: the view holds exactly the subscriptions whose lower-cased name contains the
  lower-cased search term and whose category is the filter (every category for the filter
  "all"), each as often as in the collection. It is ordered by the sort key: ascending in
  the collation \<open>localeCompare\<close> for "name", descending by the raw cost for "cost",
  ascending by renewal date for "renewal". The collation has to be a consistent comparator
  on the names, and the renewal dates have to be well formed.
\<close>

theorem filteredAndSortedSubscriptions_view:
  "mset (filteredAndSortedSubscriptions lc subs searchTerm filterBy sortBy) =
     mset (filter (\<lambda>sub.
        (\<exists>pre post. toLowerCase (name sub) = pre @ toLowerCase searchTerm @ post)
        \<and> (filterBy = ''all'' \<or> category sub = filterBy)) subs)
   \<and> (sortBy = ''name'' \<longrightarrow>
        consistentOn (\<lambda>a b. of_int (lc (name a) (name b))) (set subs) \<longrightarrow>
        sorted_wrt (\<lambda>a b. lc (name a) (name b) \<le> 0)
          (filteredAndSortedSubscriptions lc subs searchTerm filterBy sortBy))
   \<and> (sortBy = ''cost'' \<longrightarrow>
        sorted_wrt (\<lambda>a b. cost b \<le> cost a)
          (filteredAndSortedSubscriptions lc subs searchTerm filterBy sortBy))
   \<and> (sortBy = ''renewal'' \<longrightarrow> (\<forall>s\<in>set subs. renewalDate s \<noteq> None) \<longrightarrow>
        sorted_wrt (\<lambda>a b. date_le (renewalDate a) (renewalDate b))
          (filteredAndSortedSubscriptions lc subs searchTerm filterBy sortBy))"
proof -
  define P where "P = (\<lambda>sub :: subscription.
        (\<exists>pre post. toLowerCase (name sub) = pre @ toLowerCase searchTerm @ post)
        \<and> (filterBy = ''all'' \<or> category sub = filterBy))"
  define cmp :: "subscription \<Rightarrow> subscription \<Rightarrow> real" where "cmp = (\<lambda>a b.
         if sortBy = ''name'' then of_int (lc (name a) (name b))
         else if sortBy = ''cost'' then cost b - cost a
         else if sortBy = ''renewal'' then timeDifference (renewalDate a) (renewalDate b)
         else 0)"
  have f: "filteredAndSortedSubscriptions lc subs searchTerm filterBy sortBy
      = js_sort cmp (filter P subs)"
    unfolding filteredAndSortedSubscriptions_def cmp_def P_def
    by (simp add: Let_def includes_str_iff)
  have sub: "set (filter P subs) \<subseteq> set subs" by auto
  have m: "mset (js_sort cmp (filter P subs)) = mset (filter P subs)" by (rule mset_js_sort)
  have n: "sorted_wrt (\<lambda>a b. lc (name a) (name b) \<le> 0) (js_sort cmp (filter P subs))"
    if "sortBy = ''name''" "consistentOn (\<lambda>a b. of_int (lc (name a) (name b))) (set subs)"
  proof -
    have c: "cmp = (\<lambda>a b. of_int (lc (name a) (name b)))" using that(1) by (simp add: cmp_def)
    have "consistentOn cmp (set (filter P subs))"
      unfolding c by (rule consistentOn_subset [OF that(2) sub])
    from sorted_js_sort [OF this] show ?thesis by (simp add: c)
  qed
  have c: "sorted_wrt (\<lambda>a b. cost b \<le> cost a) (js_sort cmp (filter P subs))"
    if "sortBy = ''cost''"
  proof -
    have c: "cmp = (\<lambda>a b. cost b - cost a)" using that by (simp add: cmp_def)
    have "consistentOn cmp (set (filter P subs))" unfolding c by (rule cost_consistent)
    from sorted_js_sort [OF this] show ?thesis by (simp add: c)
  qed
  have r: "sorted_wrt (\<lambda>a b. date_le (renewalDate a) (renewalDate b))
      (js_sort cmp (filter P subs))"
    if "sortBy = ''renewal''" "\<forall>s\<in>set subs. renewalDate s \<noteq> None"
  proof -
    have c: "cmp = (\<lambda>a b. timeDifference (renewalDate a) (renewalDate b))"
      using that(1) by (simp add: cmp_def)
    have v: "\<forall>s\<in>set (filter P subs). renewalDate s \<noteq> None" using that(2) by simp
    have "consistentOn cmp (set (filter P subs))"
      unfolding c by (rule timeDifference_consistent [OF v])
    from sorted_js_sort [OF this]
    have s: "sorted_wrt (\<lambda>a b. timeDifference (renewalDate a) (renewalDate b) \<le> 0)
        (js_sort cmp (filter P subs))" by (simp add: c)
    have "\<forall>s\<in>set (js_sort cmp (filter P subs)). renewalDate s \<noteq> None"
      using v by (simp add: set_js_sort)
    then show ?thesis
      using s by (intro sorted_wrt_mono_rel [OF _ s]) (simp add: timeDifference_le)
  qed
  show ?thesis unfolding f P_def [symmetric] using m n c r by blast
qed

theorem filteredAndSortedSubscriptions_view_witness:
  "map name (filteredAndSortedSubscriptions codeUnitCompare [sub1, sub2, sub3, sub4]
      ''F'' ''all'' ''name'') = [''Figma'', ''Netflix'', ''Spotify'']
   \<and> sorted_wrt (\<lambda>a b. codeUnitCompare (name a) (name b) \<le> 0)
       (filteredAndSortedSubscriptions codeUnitCompare [sub1, sub2, sub3, sub4]
          ''F'' ''all'' ''name'')
   \<and> map name (filteredAndSortedSubscriptions codeUnitCompare [sub1, sub2, sub3, sub4]
      ''O'' ''all'' ''cost'') = [''Spotify'', ''Notion'']
   \<and> sorted_wrt (\<lambda>a b. cost b \<le> cost a)
       (filteredAndSortedSubscriptions codeUnitCompare [sub1, sub2, sub3, sub4]
          ''O'' ''all'' ''cost'')
   \<and> map name (filteredAndSortedSubscriptions codeUnitCompare [sub1, sub2, sub3, sub4]
      '''' ''Music'' ''renewal'') = [''Spotify'']
   \<and> map name (filteredAndSortedSubscriptions codeUnitCompare [sub1, sub2, sub3, sub4]
      '''' ''all'' ''renewal'') = [''Netflix'', ''Notion'', ''Figma'', ''Spotify'']
   \<and> sorted_wrt (\<lambda>a b. date_le (renewalDate a) (renewalDate b))
       (filteredAndSortedSubscriptions codeUnitCompare [sub1, sub2, sub3, sub4]
          '''' ''all'' ''renewal'')"
proof -
  have c: "consistentOn (\<lambda>a b. of_int (codeUnitCompare (name a) (name b)))
      (set [sub1, sub2, sub3, sub4])"
    by code_simp
  have v: "\<forall>s\<in>set [sub1, sub2, sub3, sub4]. renewalDate s \<noteq> None"
    by (simp add: sub1_def sub2_def sub3_def sub4_def)
  have n: "map name (filteredAndSortedSubscriptions codeUnitCompare [sub1, sub2, sub3, sub4]
      ''F'' ''all'' ''name'') = [''Figma'', ''Netflix'', ''Spotify'']"
    by code_simp
  have o: "map name (filteredAndSortedSubscriptions codeUnitCompare [sub1, sub2, sub3, sub4]
      ''O'' ''all'' ''cost'') = [''Spotify'', ''Notion'']"
    by code_simp
  have m: "map name (filteredAndSortedSubscriptions codeUnitCompare [sub1, sub2, sub3, sub4]
      '''' ''Music'' ''renewal'') = [''Spotify'']"
    by code_simp
  have r: "map name (filteredAndSortedSubscriptions codeUnitCompare [sub1, sub2, sub3, sub4]
      '''' ''all'' ''renewal'') = [''Netflix'', ''Notion'', ''Figma'', ''Spotify'']"
    by code_simp
  note t1 = filteredAndSortedSubscriptions_view
    [of codeUnitCompare "[sub1, sub2, sub3, sub4]" "''F''" "''all''" "''name''"]
  note t2 = filteredAndSortedSubscriptions_view
    [of codeUnitCompare "[sub1, sub2, sub3, sub4]" "''O''" "''all''" "''cost''"]
  note t3 = filteredAndSortedSubscriptions_view
    [of codeUnitCompare "[sub1, sub2, sub3, sub4]" "[]" "''all''" "''renewal''"]
  note s1 = t1 [THEN conjunct2, THEN conjunct1, rule_format, OF refl c]
  note s2 = t2 [THEN conjunct2, THEN conjunct2, THEN conjunct1, rule_format, OF refl]
  note s3 = t3 [THEN conjunct2, THEN conjunct2, THEN conjunct2, rule_format, OF refl v [rule_format]]
  show ?thesis
    by (intro conjI n o m r s1 s2 s3)
qed

section \<open>Category breakdown\<close>

lemma map_fst_replace:
  "map fst (map (\<lambda>(k', v'). if k' = k then (k', v) else (k', v')) props) = map fst props"
  by (induction props) auto

lemma key_in_keys: "(k, b) \<in> set props \<Longrightarrow> k \<in> fst ` set props"
  by force

lemma map_of_replace:
  "map_of (map (\<lambda>(k', v'). if k' = k then (k', v) else (k', v')) props) c =
     (if c = k then (if k \<in> set (map fst props) then Some v else None) else map_of props c)"
  by (induction props) (auto simp: key_in_keys)

lemma set_replace:
  "p \<in> set (map (\<lambda>(k', v'). if k' = k then (k', v) else (k', v')) props)
     \<Longrightarrow> snd p = v \<or> p \<in> set props"
  by (induction props) (auto split: if_splits)

lemma map_fst_setOwn:
  "map fst (setOwn k v props) =
     (if k \<in> set (map fst props) then map fst props else map fst props @ [k])"
proof (cases "k \<in> set (map fst props)")
  case True
  then have "setOwn k v props = map (\<lambda>(k', v'). if k' = k then (k', v) else (k', v')) props"
    by (simp add: setOwn_def)
  then show ?thesis using True by (simp only: map_fst_replace if_True)
next
  case False
  then show ?thesis by (simp add: setOwn_def)
qed

lemma keys_setOwn: "set (map fst (setOwn k v props)) = insert k (set (map fst props))"
  unfolding map_fst_setOwn by auto

lemma distinct_setOwn: "distinct (map fst props) \<Longrightarrow> distinct (map fst (setOwn k v props))"
  by (simp add: map_fst_setOwn)

lemma map_of_setOwn: "map_of (setOwn k v props) c = (if c = k then Some v else map_of props c)"
proof (cases "k \<in> set (map fst props)")
  case True
  then show ?thesis by (simp add: setOwn_def map_of_replace)
next
  case False
  then have "map_of props k = None" by (simp add: map_of_eq_None_iff)
  with False show ?thesis
    by (auto simp: setOwn_def map_add_def split: option.splits)
qed

lemma set_setOwn: "p \<in> set (setOwn k v props) \<Longrightarrow> snd p = v \<or> p \<in> set props"
  using set_replace [of p k v props] by (auto simp: setOwn_def split: if_splits)

lemma numeric_map_of: "numeric props \<Longrightarrow> map_of props c \<noteq> Some NotNumber"
  unfolding numeric_def by (auto dest: map_of_SomeD)

lemma numeric_setOwn:
  assumes "numeric props"
  shows "numeric (setOwn k (Number x) props)"
proof -
  have "v \<noteq> NotNumber" if "(k', v) \<in> set (setOwn k (Number x) props)" for k' v
    using set_setOwn [OF that] assms unfolding numeric_def by auto
  then show ?thesis
    using assms unfolding numeric_def by (auto simp: distinct_setOwn)
qed

lemma addToCategory_ordinary:
  assumes "numeric props" "ordinaryKey k"
  shows "addToCategory ops props k mc =
    setOwn k (Number (num_add ops (amountOf props k) mc)) props"
proof (cases "map_of props k")
  case None
  then show ?thesis using assms(2) by (simp add: addToCategory_def amountOf_def ordinaryKey_def)
next
  case (Some v)
  then obtain x where "v = Number x" using numeric_map_of [OF assms(1), of k] by (cases v) auto
  with Some show ?thesis by (simp add: addToCategory_def amountOf_def)
qed

lemma amountOf_setOwn:
  "amountOf (setOwn k (Number x) props) c = (if c = k then x else amountOf props c)"
  by (simp add: amountOf_def map_of_setOwn)

lemma fold_addToCategory:
  assumes "numeric props" "\<forall>s\<in>set subs. ordinaryKey (category s)"
  shows "numeric (fold (\<lambda>sub totals.
              addToCategory ops totals (category sub) (monthlyCostIn ops sub)) subs props)
    \<and> set (map fst (fold (\<lambda>sub totals.
              addToCategory ops totals (category sub) (monthlyCostIn ops sub)) subs props))
        = set (map fst props) \<union> category ` set subs
    \<and> (\<forall>c. amountOf (fold (\<lambda>sub totals.
              addToCategory ops totals (category sub) (monthlyCostIn ops sub)) subs props) c
        = fold (\<lambda>sub total. num_add ops total (monthlyCostIn ops sub))
            (filter (\<lambda>s. category s = c) subs) (amountOf props c))"
  using assms
proof (induction subs arbitrary: props)
  case Nil
  then show ?case by simp
next
  case (Cons s subs)
  define props' where "props' = addToCategory ops props (category s) (monthlyCostIn ops s)"
  have o: "ordinaryKey (category s)" using Cons.prems(2) by simp
  have e: "props' = setOwn (category s)
      (Number (num_add ops (amountOf props (category s)) (monthlyCostIn ops s))) props"
    unfolding props'_def by (rule addToCategory_ordinary [OF Cons.prems(1) o])
  have n: "numeric props'" unfolding e by (rule numeric_setOwn [OF Cons.prems(1)])
  have k: "set (map fst props') = insert (category s) (set (map fst props))"
    unfolding e by (rule keys_setOwn)
  have a: "amountOf props' c =
      (if category s = c then num_add ops (amountOf props c) (monthlyCostIn ops s)
       else amountOf props c)"
    for c unfolding e by (auto simp: amountOf_setOwn)
  have r: "\<forall>s\<in>set subs. ordinaryKey (category s)" using Cons.prems(2) by simp
  note ih = Cons.IH [OF n r]
  have f: "fold (\<lambda>sub totals. addToCategory ops totals (category sub) (monthlyCostIn ops sub))
      (s # subs) props
    = fold (\<lambda>sub totals. addToCategory ops totals (category sub) (monthlyCostIn ops sub))
        subs props'"
    by (simp add: props'_def)
  show ?case
    unfolding f using ih k a by auto
qed

lemma mset_Object_entries: "mset (Object_entries props) = mset props"
  unfolding Object_entries_def
  by (simp add: multiset_partition [symmetric] case_prod_unfold)

lemma mapResult_all:
  "\<forall>x\<in>set xs. f x = Inr (g x) \<Longrightarrow> mapResult f xs = Inr (map g xs)"
  by (induction xs) auto

lemma numeric_entry:
  assumes "numeric props" "(c, v) \<in> set props"
  shows "v = Number (amountOf props c)"
proof -
  have "map_of props c = Some v" using assms unfolding numeric_def by simp
  moreover have "v \<noteq> NotNumber" using assms unfolding numeric_def by auto
  ultimately show ?thesis by (cases v) (simp_all add: amountOf_def)
qed

lemma calculateMonthlySpendIn_Nil: "calculateMonthlySpendIn ops [] = 0"
  by (simp add: calculateMonthlySpendIn_def)

text \<open>
  C2, as the code has it, in the arithmetic of the host: \<open>getCategorySpending\<close> returns
  the empty result whenever the total monthly spend it computes is zero (the empty
  collection included). Otherwise, for categories that are ordinary keys, it returns one
  bucket per category; the spend of a bucket is the accumulated sum of the normalized
  monthly costs of its category put through \<^verbatim>\<open>Number(amount.toFixed(2))\<close>, and its
  percentage is \<^verbatim>\<open>Math.round\<close> of the unrounded sum divided by the total and multiplied
  by 100, with no correction that would make the percentages add up to 100.
\<close>

theorem getCategorySpending_buckets:
  "(calculateMonthlySpendIn ops subs = 0 \<longrightarrow> getCategorySpending ops subs = Inr [])
   \<and> (calculateMonthlySpendIn ops subs \<noteq> 0 \<longrightarrow>
        (\<forall>s\<in>set subs. ordinaryKey (category s)) \<longrightarrow>
        (\<exists>buckets. getCategorySpending ops subs = Inr buckets
           \<and> distinct (map bucket_category buckets)
           \<and> set (map bucket_category buckets) = category ` set subs
           \<and> (\<forall>b\<in>set buckets.
                 spend b = num_toFixed2 ops (categoryTotalIn ops subs (bucket_category b))
                 \<and> percentage b =
                     num_round ops
                       (num_mul ops
                          (num_div ops (categoryTotalIn ops subs (bucket_category b))
                             (calculateMonthlySpendIn ops subs))
                          100))))"
proof (intro conjI impI)
  assume "calculateMonthlySpendIn ops subs = 0"
  then show "getCategorySpending ops subs = Inr []"
    by (simp add: getCategorySpending_def Let_def)
next
  assume nz: "calculateMonthlySpendIn ops subs \<noteq> 0"
    and ord: "\<forall>s\<in>set subs. ordinaryKey (category s)"
  define totals where "totals =
    fold (\<lambda>sub totals. addToCategory ops totals (category sub) (monthlyCostIn ops sub)) subs []"
  define total where "total = calculateMonthlySpendIn ops subs"
  define g where "g = (\<lambda>(c :: string, v :: jsvalue).
     \<lparr>bucket_category = c, spend = num_toFixed2 ops (categoryTotalIn ops subs c),
      percentage = num_round ops (num_mul ops (num_div ops (categoryTotalIn ops subs c) total) 100),
      color = getCategoryColor c\<rparr>)"
  define f where "f = (\<lambda>(category, amount).
                    case amount of
                      NotNumber \<Rightarrow> Inl TypeError
                    | Number a \<Rightarrow>
                        Inr \<lparr>bucket_category = category,
                             spend = num_toFixed2 ops a,
                             percentage =
                               num_round ops (num_mul ops (num_div ops a total) 100),
                             color = getCategoryColor category\<rparr>)"
  have ne: "subs \<noteq> []" using nz by (auto simp: calculateMonthlySpendIn_Nil)
  have gcs: "getCategorySpending ops subs = mapResult f (Object_entries totals)"
    using ne nz unfolding getCategorySpending_def totals_def f_def total_def
    by (simp add: Let_def)
  have "numeric []" by (simp add: numeric_def)
  from fold_addToCategory [OF this ord, of ops]
  have num: "numeric totals"
    and keys: "set (map fst totals) = category ` set subs"
    and am: "\<And>c. amountOf totals c = categoryTotalIn ops subs c"
    unfolding totals_def categoryTotalIn_def by (simp_all add: amountOf_def)
  have ms: "mset (Object_entries totals) = mset totals" by (rule mset_Object_entries)
  then have st: "set (Object_entries totals) = set totals" by (rule mset_eq_setD)
  have fg: "\<forall>x\<in>set (Object_entries totals). f x = Inr (g x)"
  proof
    fix x assume "x \<in> set (Object_entries totals)"
    then have x: "x \<in> set totals" using st by simp
    obtain c v where cv: "x = (c, v)" by (cases x)
    have "v = Number (categoryTotalIn ops subs c)"
      using numeric_entry [OF num] x cv am by simp
    then show "f x = Inr (g x)" by (simp add: f_def g_def cv)
  qed
  have res: "getCategorySpending ops subs = Inr (map g (Object_entries totals))"
    unfolding gcs by (rule mapResult_all [OF fg])
  have cat: "map bucket_category (map g (Object_entries totals)) = map fst (Object_entries totals)"
    by (simp add: g_def case_prod_unfold)
  have "mset (map fst (Object_entries totals)) = mset (map fst totals)"
    using ms by (metis mset_map)
  then have d: "distinct (map fst (Object_entries totals))"
    using num unfolding numeric_def by (metis mset_eq_imp_distinct_iff)
  have k: "set (map fst (Object_entries totals)) = category ` set subs"
    using st keys by simp
  have each: "\<forall>b\<in>set (map g (Object_entries totals)).
      spend b = num_toFixed2 ops (categoryTotalIn ops subs (bucket_category b))
      \<and> percentage b =
          num_round ops
            (num_mul ops
               (num_div ops (categoryTotalIn ops subs (bucket_category b))
                  (calculateMonthlySpendIn ops subs))
               100)"
    by (auto simp: g_def total_def)
  show "\<exists>buckets. getCategorySpending ops subs = Inr buckets
           \<and> distinct (map bucket_category buckets)
           \<and> set (map bucket_category buckets) = category ` set subs
           \<and> (\<forall>b\<in>set buckets.
                 spend b = num_toFixed2 ops (categoryTotalIn ops subs (bucket_category b))
                 \<and> percentage b =
                     num_round ops
                       (num_mul ops
                          (num_div ops (categoryTotalIn ops subs (bucket_category b))
                             (calculateMonthlySpendIn ops subs))
                          100))"
    using res d k each unfolding cat [symmetric] by blast
qed

theorem getCategorySpending_buckets_witness:
  "getCategorySpending exactArith [] = Inr []
   \<and> getCategorySpending exactArith exampleThirds =
       Inr [\<lparr>bucket_category = ''Entertainment'', spend = 10, percentage = 33, color = ''#2563eb''\<rparr>,
            \<lparr>bucket_category = ''Music'', spend = 10, percentage = 33, color = ''#3b82f6''\<rparr>,
            \<lparr>bucket_category = ''Design'', spend = 10, percentage = 33, color = ''#f59e0b''\<rparr>]
   \<and> (\<exists>buckets. getCategorySpending exactArith exampleThirds = Inr buckets
         \<and> set (map bucket_category buckets) = {''Entertainment'', ''Music'', ''Design''})"
proof -
  have z: "calculateMonthlySpendIn exactArith [] = 0" by (rule calculateMonthlySpendIn_Nil)
  have a: "getCategorySpending exactArith [] = Inr []"
    using getCategorySpending_buckets [of exactArith "[]"] z by blast
  have nz: "calculateMonthlySpendIn exactArith exampleThirds \<noteq> 0" by code_simp
  have o: "\<forall>s\<in>set exampleThirds. ordinaryKey (category s)" by code_simp
  have c: "category ` set exampleThirds = {''Entertainment'', ''Music'', ''Design''}"
    by (auto simp: exampleThirds_def)
  have b: "getCategorySpending exactArith exampleThirds =
       Inr [\<lparr>bucket_category = ''Entertainment'', spend = 10, percentage = 33, color = ''#2563eb''\<rparr>,
            \<lparr>bucket_category = ''Music'', spend = 10, percentage = 33, color = ''#3b82f6''\<rparr>,
            \<lparr>bucket_category = ''Design'', spend = 10, percentage = 33, color = ''#f59e0b''\<rparr>]"
    by code_simp
  note t = getCategorySpending_buckets
    [of exactArith exampleThirds, THEN conjunct2, rule_format, OF nz]
  have "\<exists>buckets. getCategorySpending exactArith exampleThirds = Inr buckets
         \<and> set (map bucket_category buckets) = {''Entertainment'', ''Music'', ''Design''}"
    using t o unfolding c by blast
  then show ?thesis using a b by blast
qed

text \<open>
  C2 as stated fails: for one annual subscription of cost 100 the bucket's spend is 8.33,
  not the sum 100 / 12 of the normalized monthly costs. (The doubles agree with the exact
  arithmetic here: 100 / 12 is 8.333333333333334 and prints as "8.33".)
\<close>

theorem bucket_spend_is_rounded:
  "getCategorySpending exactArith [sub2] =
     Inr [\<lparr>bucket_category = ''Design'', spend = 833 / 100, percentage = 100,
           color = ''#f59e0b''\<rparr>]
   \<and> categorySpend [sub2] ''Design'' = 25 / 3
   \<and> (833 / 100 :: real) \<noteq> 25 / 3"
  by code_simp

text \<open>
  In the arithmetic without rounding error the accumulated total of a category is the sum
  of the normalized monthly costs, and the total is \<open>calculateMonthlySpend\<close>.
\<close>

lemma monthlyCostIn_exact: "monthlyCostIn exactArith s = monthlyCost s"
  by (simp add: monthlyCostIn_def monthlyCost_def exactArith_def)

lemma categoryTotalIn_exact: "categoryTotalIn exactArith subs c = categorySpend subs c"
  unfolding categoryTotalIn_def categorySpend_def
  by (simp add: exactArith_def monthlyCostIn_exact [unfolded exactArith_def] fold_add_monthlyCost)

lemma calculateMonthlySpendIn_exact:
  "calculateMonthlySpendIn exactArith subs = calculateMonthlySpend subs"
  unfolding calculateMonthlySpendIn_def calculateMonthlySpend_def
  by (simp add: exactArith_def monthlyCostIn_exact [unfolded exactArith_def])

text \<open>
  A category that names a method of \<^verbatim>\<open>Object.prototype\<close> makes the function throw,
  and the category \<^verbatim>\<open>__proto__\<close> gets no bucket.
\<close>

lemma getCategorySpending_inherited_key:
  "getCategorySpending exactArith [sub2\<lparr>category := ''constructor''\<rparr>] = Inl TypeError"
  by code_simp

lemma getCategorySpending_proto_key:
  "getCategorySpending exactArith [sub2, sub3\<lparr>category := ''__proto__''\<rparr>] =
     Inr [\<lparr>bucket_category = ''Design'', spend = 833 / 100, percentage = 7,
           color = ''#f59e0b''\<rparr>]"
  by code_simp

text \<open>
  The percentage follows the arithmetic of the host: with the product that the doubles
  give, the share of 23 in 40 is 57, where the exact product gives 58.
\<close>

lemma getCategorySpending_host_product:
  "getCategorySpending productRoundedDown twoCategories =
     Inr [\<lparr>bucket_category = ''Entertainment'', spend = 23, percentage = 57,
           color = ''#2563eb''\<rparr>,
          \<lparr>bucket_category = ''Music'', spend = 17, percentage = 43, color = ''#3b82f6''\<rparr>]"
  "getCategorySpending exactArith twoCategories =
     Inr [\<lparr>bucket_category = ''Entertainment'', spend = 23, percentage = 58,
           color = ''#2563eb''\<rparr>,
          \<lparr>bucket_category = ''Music'', spend = 17, percentage = 43, color = ''#3b82f6''\<rparr>]"
  by code_simp+

section \<open>Closing the payment flow while it is processing\<close>

lemma render_closed:
  "render (st\<lparr>showPaymentModal := False, selectedSubscription := None\<rparr>)
     = st\<lparr>showPaymentModal := False, selectedSubscription := None, mounted := None\<rparr>"
  by (simp add: render_def)

lemma dispatch_unmounted: "mounted st = None \<Longrightarrow> dispatch r st = st"
  by (cases r) simp

lemma dispatch_other_instance:
  "mounted st = Some (j, m) \<Longrightarrow> j \<noteq> i \<Longrightarrow> dispatch (SetCurrentStep i step) st = st"
  by simp

text \<open>
  C4, as the code has it. Let the modal be mounted as instance \<open>i\<close> with no timer pending,
  let Pay be pressed and the flow be closed while it is processing. Then the close does not
  cancel the deferred callback, and the callback checks nothing: it still fires and calls
  \<^verbatim>\<open>setCurrentStep("success")\<close>. The call has no effect, because the close has unmounted
  the modal and the runtime drops the update of an unmounted instance: the flow stays as
  the close left it, also when the modal has been opened again in the meantime. Without the
  close the same callback moves the step to success.
\<close>

theorem deferred_callback_unguarded:
  assumes "mounted st = Some (i, m)" and "timers st = []" and "i < nextInstance st"
  shows "timers (handleClosePayment (handleConfirmPayment i st)) = [(3000, SetCurrentStepSuccess i)]
    \<and> mounted (handleClosePayment (handleConfirmPayment i st)) = None
    \<and> runCallback (SetCurrentStepSuccess i) (handleClosePayment (handleConfirmPayment i st))
        = [SetCurrentStep i Success]
    \<and> fireTimer (handleClosePayment (handleConfirmPayment i st))
        = (handleClosePayment (handleConfirmPayment i st))\<lparr>timers := []\<rparr>
    \<and> fireTimer (handlePayNow sub (handleClosePayment (handleConfirmPayment i st)))
        = (handlePayNow sub (handleClosePayment (handleConfirmPayment i st)))\<lparr>timers := []\<rparr>
    \<and> mounted (fireTimer (handleConfirmPayment i st)) = Some (i, m\<lparr>currentStep := Success\<rparr>)"
proof -
  define c where "c = handleClosePayment (handleConfirmPayment i st)"
  have cf: "handleConfirmPayment i st =
      st\<lparr>mounted := Some (i, m\<lparr>currentStep := Processing\<rparr>),
         timers := [(3000, SetCurrentStepSuccess i)]\<rparr>"
    using assms(1,2) by (simp add: handleConfirmPayment_def)
  have c: "c = st\<lparr>mounted := None, timers := [(3000, SetCurrentStepSuccess i)],
      showPaymentModal := False, selectedSubscription := None\<rparr>"
    unfolding c_def handleClosePayment_def render_closed cf by simp
  have t: "timers c = [(3000, SetCurrentStepSuccess i)]" and u: "mounted c = None"
    by (simp_all add: c)
  have f: "fireTimer c = c\<lparr>timers := []\<rparr>"
    using t u by (simp add: fireTimer_def dispatch_unmounted)
  define r where "r = handlePayNow sub c"
  have r: "r = c\<lparr>selectedSubscription := Some sub, showPaymentModal := True,
      mounted := Some (nextInstance st, initialModal), nextInstance := Suc (nextInstance st)\<rparr>"
    unfolding r_def handlePayNow_def render_def by (simp add: c)
  have rt: "timers r = [(3000, SetCurrentStepSuccess i)]"
    and rm: "mounted r = Some (nextInstance st, initialModal)"
    by (simp_all add: r c)
  have "dispatch (SetCurrentStep i Success) (r\<lparr>timers := []\<rparr>) = r\<lparr>timers := []\<rparr>"
    by (rule dispatch_other_instance [of _ "nextInstance st" initialModal])
      (use rm assms(3) in simp_all)
  then have g: "fireTimer r = r\<lparr>timers := []\<rparr>"
    using rt by (simp add: fireTimer_def)
  have h: "mounted (fireTimer (handleConfirmPayment i st)) = Some (i, m\<lparr>currentStep := Success\<rparr>)"
    unfolding cf by (simp add: fireTimer_def)
  show ?thesis
    using t u f g h unfolding c_def r_def by simp
qed

theorem deferred_callback_unguarded_witness:
  "mounted flowInSummary = Some (0, validCardState\<lparr>currentStep := Summary\<rparr>)
   \<and> timers flowInSummary = []
   \<and> 0 < nextInstance flowInSummary
   \<and> timers closedWhileProcessing = [(3000, SetCurrentStepSuccess 0)]
   \<and> fireTimer closedWhileProcessing =
       \<lparr>mounted = None, nextInstance = 1, showPaymentModal = False,
        selectedSubscription = None, timers = []\<rparr>
   \<and> mounted (fireTimer (handleConfirmPayment 0 flowInSummary))
       = Some (0, validCardState\<lparr>currentStep := Success\<rparr>)"
proof -
  have a: "mounted flowInSummary = Some (0, validCardState\<lparr>currentStep := Summary\<rparr>)"
    and b: "timers flowInSummary = []" and c: "0 < nextInstance flowInSummary"
    by (simp_all add: flowInSummary_def)
  note t = deferred_callback_unguarded [OF a b c, folded closedWhileProcessing_def]
  have e: "closedWhileProcessing\<lparr>timers := []\<rparr> =
      \<lparr>mounted = None, nextInstance = 1, showPaymentModal = False,
        selectedSubscription = None, timers = []\<rparr>"
    by (simp add: closedWhileProcessing_def handleClosePayment_def handleConfirmPayment_def
        render_def flowInSummary_def)
  from t have t1: "timers closedWhileProcessing = [(3000, SetCurrentStepSuccess 0)]"
    and t4: "fireTimer closedWhileProcessing = closedWhileProcessing\<lparr>timers := []\<rparr>"
    and t6: "mounted (fireTimer (handleConfirmPayment 0 flowInSummary))
       = Some (0, validCardState\<lparr>currentStep := Summary, currentStep := Success\<rparr>)"
    by simp_all
  show ?thesis using a b c t1 t4 t6 unfolding e by simp
qed

text \<open>
  C4 as stated fails in one clause: the callback does not check that the flow has been
  torn down. After Pay and a close the modal is unmounted, the callback is still pending,
  and run on that flow it issues the update to success all the same.
\<close>

theorem deferred_callback_after_close:
  "mounted closedWhileProcessing = None
   \<and> showPaymentModal closedWhileProcessing = False
   \<and> selectedSubscription closedWhileProcessing = None
   \<and> timers closedWhileProcessing = [(3000, SetCurrentStepSuccess 0)]
   \<and> runCallback (SetCurrentStepSuccess 0) closedWhileProcessing = [SetCurrentStep 0 Success]"
  by (simp add: closedWhileProcessing_def handleClosePayment_def handleConfirmPayment_def
      render_def flowInSummary_def)

end
